(* ===== verification/Prelude.thy ===== *)
theory Prelude
  imports Main "HOL-Library.Word" "HOL-Library.AList"
begin

text \<open>
  The vocabulary shared by every component of the OCSP responder: bytes, Go's \<open>string\<close> and
  \<open>[]byte\<close>, the 64-bit signed wrap-around of Go's \<open>int\<close> and \<open>time.Duration\<close>, the string
  functions of package \<open>strings\<close> that the program calls, and generic facts on association
  lists (Go's \<open>map\<close>, whose iteration order is not specified), lists and results.

  A fallible operation returns \<open>'e + 'a\<close>: \<open>Inl\<close> is the error, \<open>Inr\<close> the value.  A Go pointer that
  may be nil is an \<open>option\<close>.
\<close>

section \<open>Types\<close>

type_synonym byte = "8 word"
type_synonym bytes = "byte list"

section \<open>Collections of facts\<close>

text \<open>
  \<open>go_defs\<close> unfolds the model of the Go standard library; \<open>window_simps\<close> decides validity windows.
\<close>

named_theorems go_defs
named_theorems window_simps

section \<open>Signed 64-bit arithmetic\<close>

text \<open>\<open>wrap64\<close> is the value of an \<open>int64\<close> computation whose exact result is the argument.\<close>

definition wrap64 :: "int \<Rightarrow> int" where
  "wrap64 x = (x + 2 ^ 63) mod 2 ^ 64 - 2 ^ 63"

definition in_int64 :: "int \<Rightarrow> bool" where
  "in_int64 x \<longleftrightarrow> - (2 ^ 63) \<le> x \<and> x < 2 ^ 63"

abbreviation max_int64 :: int where
  "max_int64 \<equiv> 9223372036854775807"

abbreviation min_int64 :: int where
  "min_int64 \<equiv> - 9223372036854775808"

lemma wrap64_id [simp]: "in_int64 x \<Longrightarrow> wrap64 x = x"
  by (simp add: wrap64_def in_int64_def)

lemma wrap64_range [simp]: "in_int64 (wrap64 x)"
  by (simp add: wrap64_def in_int64_def)

lemma wrap64_idem [simp]: "wrap64 (wrap64 x) = wrap64 x"
  by simp

lemma wrap64_mult_left: "wrap64 (a * wrap64 b) = wrap64 (a * b)"
proof -
  have "(a * wrap64 b + 2 ^ 63) mod 2 ^ 64 = (a * b + 2 ^ 63) mod 2 ^ 64"
  proof -
    have "wrap64 b mod 2 ^ 64 = b mod 2 ^ 64"
      unfolding wrap64_def by (simp add: mod_simps)
    then have "(a * wrap64 b) mod 2 ^ 64 = (a * b) mod 2 ^ 64"
      by (metis mod_mult_right_eq)
    then show ?thesis by (metis mod_add_left_eq)
  qed
  then show ?thesis by (simp add: wrap64_def)
qed

section \<open>Strings\<close>

text \<open>\<open>strings.HasPrefix\<close>.\<close>

fun HasPrefix :: "string \<Rightarrow> string \<Rightarrow> bool" where
  "HasPrefix s [] = True"
| "HasPrefix [] (p # ps) = False"
| "HasPrefix (c # s) (p # ps) = (c = p \<and> HasPrefix s ps)"

text \<open>\<open>strings.TrimRight\<close> for a cutset of one ASCII character.\<close>

definition TrimRight :: "string \<Rightarrow> char \<Rightarrow> string" where
  "TrimRight s c = rev (dropWhile (\<lambda>x. x = c) (rev s))"

text \<open>
  \<open>strings.ReplaceAll\<close> for a non-empty pattern (the program's only pattern is \<open>{serial}\<close>): the
  non-overlapping occurrences from the left.
\<close>

function ReplaceAll :: "string \<Rightarrow> string \<Rightarrow> string \<Rightarrow> string" where
  "ReplaceAll s old new =
     (case s of
        [] \<Rightarrow> []
      | c # cs \<Rightarrow>
          if old \<noteq> [] \<and> HasPrefix s old then new @ ReplaceAll (drop (length old) s) old new
          else c # ReplaceAll cs old new)"
  by pat_completeness auto
termination
  by (relation "measure (\<lambda>(s, old, new). length s)") auto

declare ReplaceAll.simps [simp del]

text \<open>\<open>strings.ToUpper\<close> and \<open>strings.ToLower\<close> on ASCII text.\<close>

definition upper_char :: "char \<Rightarrow> char" where
  "upper_char c = (if 97 \<le> (of_char c :: nat) \<and> (of_char c :: nat) \<le> 122
                   then char_of (of_char c - (32 :: nat)) else c)"

definition lower_char :: "char \<Rightarrow> char" where
  "lower_char c = (if 65 \<le> (of_char c :: nat) \<and> (of_char c :: nat) \<le> 90
                   then char_of (of_char c + (32 :: nat)) else c)"

definition ToUpper :: "string \<Rightarrow> string" where
  "ToUpper s = map upper_char s"

definition ToLower :: "string \<Rightarrow> string" where
  "ToLower s = map lower_char s"

lemma HasPrefix_iff: "HasPrefix s p \<longleftrightarrow> (\<exists>r. s = p @ r)"
  by (induction s p rule: HasPrefix.induct) auto

lemma HasPrefix_append [simp]: "HasPrefix (p @ r) p"
  by (simp add: HasPrefix_iff)

lemma TrimRight_last: "TrimRight s c \<noteq> [] \<Longrightarrow> last (TrimRight s c) \<noteq> c"
proof -
  assume ne: "TrimRight s c \<noteq> []"
  then have "dropWhile (\<lambda>x. x = c) (rev s) \<noteq> []" by (simp add: TrimRight_def)
  then have "hd (dropWhile (\<lambda>x. x = c) (rev s)) \<noteq> c" by (rule hd_dropWhile)
  then show ?thesis by (simp add: TrimRight_def last_rev)
qed

lemma ReplaceAll_Nil [simp]: "ReplaceAll [] old new = []"
  by (simp add: ReplaceAll.simps)

lemma ReplaceAll_hit:
  "old \<noteq> [] \<Longrightarrow> ReplaceAll (old @ r) old new = new @ ReplaceAll r old new"
  by (cases old) (simp_all add: ReplaceAll.simps [of "old @ r"] ReplaceAll.simps [of "_ # _ @ r"] HasPrefix_iff)

lemma ReplaceAll_miss:
  "\<not> HasPrefix (c # cs) old \<Longrightarrow> ReplaceAll (c # cs) old new = c # ReplaceAll cs old new"
  by (simp add: ReplaceAll.simps [of "c # cs"])

section \<open>Association lists\<close>

text \<open>
  A Go map is an association list with distinct keys; the position of an entry carries no
  meaning.  \<open>keys\<close> is its key set.
\<close>

definition alist_ok :: "('k \<times> 'v) list \<Rightarrow> bool" where
  "alist_ok m \<longleftrightarrow> distinct (map fst m)"

abbreviation keys :: "('k \<times> 'v) list \<Rightarrow> 'k set" where
  "keys m \<equiv> fst ` set m"

lemma alist_ok_Nil [simp]: "alist_ok []"
  by (simp add: alist_ok_def)

lemma alist_ok_update [simp, intro]: "alist_ok m \<Longrightarrow> alist_ok (AList.update k v m)"
  by (simp add: alist_ok_def distinct_update)

lemma alist_ok_delete [simp, intro]: "alist_ok m \<Longrightarrow> alist_ok (AList.delete k m)"
  by (simp add: alist_ok_def distinct_delete)

lemma length_delete_mem:
  assumes "alist_ok m" and "k \<in> keys m"
  shows "length (AList.delete k m) = length m - 1"
  using assms
proof (induction m)
  case Nil
  then show ?case by simp
next
  case (Cons p m)
  have del: "AList.delete k m = m" if "k \<notin> keys m"
    using that by (rule delete_id)
  show ?case
  proof (cases "fst p = k")
    case True
    with Cons.prems have "k \<notin> keys m" by (auto simp: alist_ok_def)
    with True del show ?thesis by (cases p) simp
  next
    case False
    with Cons have "length (AList.delete k m) = length m - 1" and "k \<in> keys m"
      by (auto simp: alist_ok_def)
    moreover from \<open>k \<in> keys m\<close> have "m \<noteq> []" by auto
    ultimately show ?thesis using False by (cases p) (cases m; simp)
  qed
qed

lemma length_update: "length (AList.update k v m) = (if k \<in> keys m then length m else Suc (length m))"
  by (induction m) auto

lemma map_of_delete_same [simp]: "map_of (AList.delete k m) k = None"
  by (simp add: delete_conv')

lemma map_of_update_same [simp]: "map_of (AList.update k v m) k = Some v"
  by (simp add: update_conv')

lemma map_of_update_other [simp]: "k' \<noteq> k \<Longrightarrow> map_of (AList.update k v m) k' = map_of m k'"
  by (simp add: update_conv')

text \<open>Filling a map by a loop of assignments: the last assignment to a key wins.\<close>

lemma map_of_fold_update:
  "map_of (fold (\<lambda>x. AList.update (f x) (g x)) xs m) k =
     (case find (\<lambda>x. f x = k) (rev xs) of Some x \<Rightarrow> Some (g x) | None \<Rightarrow> map_of m k)"
proof (induction xs arbitrary: m rule: rev_induct)
  case Nil
  then show ?case by simp
next
  case (snoc x xs)
  then show ?case by (simp add: update_conv')
qed

lemma find_append: "find P (xs @ ys) = (case find P xs of None \<Rightarrow> find P ys | Some z \<Rightarrow> Some z)"
  by (induction xs) simp_all

lemma find_rev_None: "find P (rev xs) = None \<longleftrightarrow> (\<forall>x \<in> set xs. \<not> P x)"
  by (auto simp: find_None_iff)

lemma find_rev_SomeD: "find P (rev xs) = Some x \<Longrightarrow> x \<in> set xs \<and> P x"
  by (auto simp: find_Some_iff in_set_conv_nth rev_nth) (metis diff_Suc_less length_pos_if_in_set nth_mem)

end
