(* ===== verification/GoTime.thy ===== *)
theory GoTime
  imports Prelude "HOL-Library.Log_Nat" "HOL-Library.Signed_Division"
begin

text \<open>
  Package \<open>time\<close>, as far as the responder uses it, and the double-precision arithmetic behind
  \<open>Duration.Hours\<close> and \<open>Duration.Seconds\<close>.

  A \<open>time.Time\<close> is the number of nanoseconds since Go's zero time (January 1 of year 1, UTC), so
  \<open>IsZero\<close> is equality with 0; wall clock and monotonic clock readings of one process are taken to
  agree.  A \<open>time.Duration\<close> is an \<open>int64\<close> of nanoseconds; \<open>Time.Sub\<close> saturates at its bounds.
  \<open>f64\<close> rounds a rational to the nearest double, ties to even, in the normal range, where all the
  program's values lie.
\<close>

section \<open>Instants and durations\<close>

type_synonym Time = int
type_synonym Duration = int

abbreviation (input) Millisecond :: Duration where "Millisecond \<equiv> 1000000"
abbreviation (input) Second :: Duration where "Second \<equiv> 1000000000"
abbreviation (input) Minute :: Duration where "Minute \<equiv> 60000000000"
abbreviation (input) Hour :: Duration where "Hour \<equiv> 3600000000000"
abbreviation (input) Day :: Duration where "Day \<equiv> 86400000000000"

definition IsZero :: "Time \<Rightarrow> bool" where
  "IsZero t \<longleftrightarrow> t = 0"

definition Time_Add :: "Time \<Rightarrow> Duration \<Rightarrow> Time" where
  "Time_Add t d = t + d"

definition Before :: "Time \<Rightarrow> Time \<Rightarrow> bool" where
  "Before t u \<longleftrightarrow> t < u"

definition After :: "Time \<Rightarrow> Time \<Rightarrow> bool" where
  "After t u \<longleftrightarrow> u < t"

definition Time_Sub :: "Time \<Rightarrow> Time \<Rightarrow> Duration" where
  "Time_Sub t u = (if in_int64 (t - u) then t - u else if t < u then min_int64 else max_int64)"

definition Time_Truncate :: "Time \<Rightarrow> Duration \<Rightarrow> Time" where
  "Time_Truncate t d = (if d \<le> 0 then t else t - t mod d)"

lemmas [go_defs] = IsZero_def Time_Add_def Before_def After_def

section \<open>Double precision\<close>

text \<open>\<open>binade x\<close> is the exponent \<open>e\<close> with \<open>2^e \<le> x < 2^(e+1)\<close>, for positive \<open>x\<close>.\<close>

definition binade :: "rat \<Rightarrow> int" where
  "binade x = (let (p, q) = quotient_of x; e = bitlen p - bitlen q
               in if 2 powi e \<le> x then e else e - 1)"

text \<open>Round to the nearest integer, ties to even.\<close>

definition rne :: "rat \<Rightarrow> int" where
  "rne x = (let f = \<lfloor>x\<rfloor>; r = x - of_int f
            in if r < 1 / 2 then f else if 1 / 2 < r then f + 1
               else if even f then f else f + 1)"

definition f64 :: "rat \<Rightarrow> rat" where
  "f64 x = (if x = 0 then 0
            else let u = 2 powi (binade \<bar>x\<bar> - 52) in of_int (rne (x / u)) * u)"

text \<open>\<open>Duration.Hours\<close> and \<open>Duration.Seconds\<close>: truncated quotient plus scaled remainder.\<close>

definition Duration_Hours :: "Duration \<Rightarrow> rat" where
  "Duration_Hours d = f64 (of_int (d sdiv Hour) + f64 (of_int (d smod Hour) / of_int Hour))"

definition Duration_Seconds :: "Duration \<Rightarrow> rat" where
  "Duration_Seconds d = f64 (of_int (d sdiv Second) + f64 (of_int (d smod Second) / of_int Second))"

text \<open>The conversion \<open>int(x)\<close> truncates toward zero.\<close>

definition trunc_rat :: "rat \<Rightarrow> int" where
  "trunc_rat x = (if 0 \<le> x then \<lfloor>x\<rfloor> else \<lceil>x\<rceil>)"

section \<open>Facts on instants\<close>

lemma Time_Sub_exact [simp]: "in_int64 (t - u) \<Longrightarrow> Time_Sub t u = t - u"
  by (simp add: Time_Sub_def)

lemma Time_Sub_int64: "in_int64 (Time_Sub t u)"
  by (auto simp: Time_Sub_def in_int64_def)

lemma Time_Sub_mono: "t \<le> t' \<Longrightarrow> u' \<le> u \<Longrightarrow> Time_Sub t u \<le> Time_Sub t' u'"
  by (auto simp: Time_Sub_def in_int64_def)

lemma Time_Truncate_le: "Time_Truncate t d \<le> t"
  by (simp add: Time_Truncate_def)

lemma Time_Truncate_gt: "0 < d \<Longrightarrow> t - d < Time_Truncate t d"
  using pos_mod_bound [of d t] by (simp add: Time_Truncate_def)

lemma Time_Truncate_dvd: "0 < d \<Longrightarrow> d dvd Time_Truncate t d"
  by (simp add: Time_Truncate_def minus_mod_eq_mult_div)

lemma Time_Truncate_mono: "t \<le> t' \<Longrightarrow> Time_Truncate t d \<le> Time_Truncate t' d"
  by (auto simp: Time_Truncate_def minus_mod_eq_mult_div intro!: mult_left_mono zdiv_mono1)

section \<open>Rounding to the nearest double\<close>

lemma rne_le_int: "x \<le> of_int n \<Longrightarrow> rne x \<le> n"
proof -
  assume x: "x \<le> of_int n"
  show ?thesis
  proof (cases "x = of_int n")
    case True
    then show ?thesis by (simp add: rne_def)
  next
    case False
    with x have "\<lfloor>x\<rfloor> < n" by (simp add: floor_less_iff)
    then show ?thesis by (auto simp: rne_def Let_def)
  qed
qed

lemma rne_ge_int: "of_int n \<le> x \<Longrightarrow> n \<le> rne x"
proof -
  assume "of_int n \<le> x"
  then have "n \<le> \<lfloor>x\<rfloor>" by (simp add: le_floor_iff)
  then show ?thesis by (auto simp: rne_def Let_def)
qed

lemma rne_error: "\<bar>of_int (rne x) - x\<bar> \<le> 1 / 2"
proof -
  have "of_int \<lfloor>x\<rfloor> \<le> x" and "x < of_int \<lfloor>x\<rfloor> + 1"
    by linarith+
  then show ?thesis
    by (auto simp: rne_def Let_def abs_le_iff)
qed

lemma binade_bounds:
  assumes "0 < x"
  shows "2 powi (binade x) \<le> x" and "x < 2 powi (binade x + 1)"
proof -
  obtain p q where pq: "quotient_of x = (p, q)" by fastforce
  have q0: "0 < q" and x: "x = of_int p / of_int q"
    using quotient_of_denom_pos [OF pq] quotient_of_div [OF pq] by auto
  with assms have p0: "0 < p"
    by (simp add: zero_less_divide_iff)
  define a b where "a = nat (bitlen p)" and "b = nat (bitlen q)"
  have pos: "0 < bitlen p" "0 < bitlen q"
    using p0 q0 by (simp_all add: bitlen_alt_def)
  have p1: "2 ^ (a - 1) \<le> p" "p < 2 ^ a" and q1: "2 ^ (b - 1) \<le> q" "q < 2 ^ b"
    using bitlen_bounds [OF p0] bitlen_bounds [OF q0] pos
    by (simp_all add: a_def b_def nat_diff_distrib)
  have ab: "1 \<le> a" "1 \<le> b" using pos by (simp_all add: a_def b_def)
  have rp: "(2::rat) ^ (a - 1) \<le> of_int p" "(of_int p :: rat) < 2 ^ a"
    and rq: "(2::rat) ^ (b - 1) \<le> of_int q" "(of_int q :: rat) < 2 ^ b"
    using p1 q1 by (metis of_int_le_iff of_int_less_iff of_int_numeral of_int_power)+
  have e: "bitlen p - bitlen q = int a - int b"
    using pos by (simp add: a_def b_def)
  have hi: "x < 2 powi (int a - int b + 1)"
  proof -
    have "x < 2 ^ a / 2 ^ (b - 1)"
      unfolding x using rp rq q0 p0 by (intro frac_less) auto
    also have "\<dots> = 2 powi (int a - int b + 1)"
      using ab by (simp add: power_int_diff power_int_add power_diff)
    finally show ?thesis .
  qed
  have lo: "2 powi (int a - int b - 1) \<le> x"
  proof -
    have "2 powi (int a - int b - 1) = (2::rat) ^ (a - 1) / 2 ^ b"
      using ab by (simp add: power_int_diff power_diff)
    also have "\<dots> \<le> x"
      unfolding x using rp rq q0 p0 by (intro frac_le) auto
    finally show ?thesis .
  qed
  show "2 powi (binade x) \<le> x"
    using lo by (auto simp: binade_def pq e Let_def)
  show "x < 2 powi (binade x + 1)"
    using hi by (auto simp: binade_def pq e Let_def)
qed

text \<open>Every integer is a multiple of a unit in the last place that is at most 1.\<close>

lemma ulp_divides_int:
  assumes "e \<le> 52"
  shows "\<exists>m :: int. (of_int n :: rat) = of_int m * 2 powi (e - 52)"
proof -
  have "(of_int n :: rat) = of_int (n * 2 ^ nat (52 - e)) * 2 powi (e - 52)"
  proof -
    have "(2 :: rat) ^ nat (52 - e) * 2 powi (e - 52) = 2 powi ((52 - e) + (e - 52))"
      using assms by (subst power_int_add) (auto simp: power_int_def)
    then show ?thesis by (simp add: mult.assoc)
  qed
  then show ?thesis by blast
qed

lemma binade_small:
  assumes "0 < x" and "x < 2 ^ 53"
  shows "binade x \<le> 52"
proof (rule ccontr)
  assume "\<not> binade x \<le> 52"
  then have "(2 :: rat) powi 53 \<le> 2 powi (binade x)"
    by (intro power_int_increasing) auto
  also have "\<dots> \<le> x" using binade_bounds(1) [OF assms(1)] .
  finally show False using assms(2) by (simp add: power_int_def)
qed

lemma f64_le_int:
  assumes "\<bar>x\<bar> < 2 ^ 53" and "x \<le> of_int n"
  shows "f64 x \<le> of_int n"
proof (cases "x = 0")
  case True
  with assms show ?thesis by (simp add: f64_def)
next
  case False
  define u :: rat where "u = 2 powi (binade \<bar>x\<bar> - 52)"
  have u: "0 < u" by (simp add: u_def)
  have "binade \<bar>x\<bar> \<le> 52" using False assms(1) by (intro binade_small) auto
  then obtain m :: int where m: "(of_int n :: rat) = of_int m * u"
    unfolding u_def using ulp_divides_int by blast
  with assms(2) u have "x / u \<le> of_int m" by (simp add: divide_le_eq)
  then have "rne (x / u) \<le> m" by (rule rne_le_int)
  then have "of_int (rne (x / u)) * u \<le> of_int m * u" using u by simp
  with False m show ?thesis by (simp add: f64_def u_def [symmetric])
qed

lemma f64_ge_int:
  assumes "\<bar>x\<bar> < 2 ^ 53" and "of_int n \<le> x"
  shows "of_int n \<le> f64 x"
proof (cases "x = 0")
  case True
  with assms show ?thesis by (simp add: f64_def)
next
  case False
  define u :: rat where "u = 2 powi (binade \<bar>x\<bar> - 52)"
  have u: "0 < u" by (simp add: u_def)
  have "binade \<bar>x\<bar> \<le> 52" using False assms(1) by (intro binade_small) auto
  then obtain m :: int where m: "(of_int n :: rat) = of_int m * u"
    unfolding u_def using ulp_divides_int by blast
  with assms(2) u have "of_int m \<le> x / u" by (simp add: le_divide_eq)
  then have "m \<le> rne (x / u)" by (rule rne_ge_int)
  then have "of_int m * u \<le> of_int (rne (x / u)) * u" using u by simp
  with False m show ?thesis by (simp add: f64_def u_def [symmetric])
qed

lemma f64_error: "\<bar>f64 x - x\<bar> \<le> \<bar>x\<bar> / 2 ^ 53"
proof (cases "x = 0")
  case True
  then show ?thesis by (simp add: f64_def)
next
  case False
  define u :: rat where "u = 2 powi (binade \<bar>x\<bar> - 52)"
  have u: "0 < u" by (simp add: u_def)
  have "2 powi (binade \<bar>x\<bar>) \<le> \<bar>x\<bar>" using False by (intro binade_bounds(1)) auto
  then have ux: "u \<le> \<bar>x\<bar> / 2 ^ 52"
    by (simp add: u_def power_int_diff divide_right_mono)
  have "f64 x - x = (of_int (rne (x / u)) - x / u) * u"
    using False u by (simp add: f64_def u_def [symmetric] left_diff_distrib)
  then have "\<bar>f64 x - x\<bar> = \<bar>of_int (rne (x / u)) - x / u\<bar> * u"
    using u by (simp add: abs_mult)
  also have "\<dots> \<le> (1 / 2) * u"
    using rne_error [of "x / u"] u by (intro mult_right_mono) auto
  also have "\<dots> \<le> \<bar>x\<bar> / 2 ^ 53" using ux by simp
  finally show ?thesis .
qed

text \<open>Rounding is monotone: within a binade by \<open>rne\<close>, across binades at the powers of two between.\<close>

lemma rne_mono: "x \<le> y \<Longrightarrow> rne x \<le> rne y"
proof -
  assume xy: "x \<le> y"
  show ?thesis
  proof (cases "\<lfloor>x\<rfloor> = \<lfloor>y\<rfloor>")
    case True
    with xy show ?thesis by (auto simp: rne_def Let_def)
  next
    case False
    with floor_mono [OF xy] have "\<lfloor>x\<rfloor> + 1 \<le> \<lfloor>y\<rfloor>" by simp
    moreover have "rne x \<le> \<lfloor>x\<rfloor> + 1" "\<lfloor>y\<rfloor> \<le> rne y" by (auto simp: rne_def Let_def)
    ultimately show ?thesis by linarith
  qed
qed

lemma rne_minus: "rne (- x) = - rne x"
proof (cases "of_int \<lfloor>x\<rfloor> = x")
  case True
  then obtain n where "x = of_int n" by metis
  moreover have "rne (of_int m) = m" for m by (simp add: rne_def)
  ultimately show ?thesis by (metis of_int_minus)
next
  case False
  then have "\<lfloor>- x\<rfloor> = - \<lfloor>x\<rfloor> - 1"
    by (simp add: floor_minus ceiling_altdef)
  then show ?thesis by (auto simp: rne_def Let_def)
qed

lemma f64_minus: "f64 (- x) = - f64 x"
  by (simp add: f64_def Let_def rne_minus)

lemma f64_in_binade:
  assumes "0 < x"
  shows "2 powi (binade x) \<le> f64 x" and "f64 x \<le> 2 powi (binade x + 1)"
proof -
  define u :: rat where "u = 2 powi (binade x - 52)"
  have u: "0 < u" by (simp add: u_def)
  have fx: "f64 x = of_int (rne (x / u)) * u" using assms by (simp add: f64_def u_def Let_def)
  have lo: "2 powi (binade x) = of_int (2 ^ 52) * u" and hi: "2 powi (binade x + 1) = of_int (2 ^ 53) * u"
    by (simp_all add: u_def power_int_diff power_int_add)
  have "of_int (2 ^ 52) \<le> x / u" "x / u \<le> of_int (2 ^ 53)"
    using binade_bounds [OF assms] u lo hi by (simp_all add: le_divide_eq divide_le_eq)
  then have "2 ^ 52 \<le> rne (x / u)" and "rne (x / u) \<le> 2 ^ 53"
    by (blast intro: rne_ge_int, blast intro: rne_le_int)
  then have "(of_int (2 ^ 52) :: rat) \<le> of_int (rne (x / u))" "(of_int (rne (x / u)) :: rat) \<le> of_int (2 ^ 53)"
    by (simp_all only: of_int_le_iff)
  then show "2 powi (binade x) \<le> f64 x" "f64 x \<le> 2 powi (binade x + 1)"
    unfolding fx lo hi using u by (simp_all only: mult_right_mono order_less_imp_le)
qed

lemma f64_mono_pos:
  assumes "0 < x" and "x \<le> y"
  shows "f64 x \<le> f64 y"
proof (cases "binade x = binade y")
  case True
  have "rne (x / u) \<le> rne (y / u)" if "0 < u" for u
    using assms(2) that by (intro rne_mono divide_right_mono) auto
  then show ?thesis using assms by (simp add: f64_def Let_def True)
next
  case False
  have "(2 :: rat) powi (binade x) < 2 powi (binade y + 1)"
    using binade_bounds(1) [OF assms(1)] binade_bounds(2) [of y] assms by linarith
  then have "binade x < binade y + 1"
    using power_int_increasing [of "binade y + 1" "binade x" "2 :: rat"] by fastforce
  with False have "binade x + 1 \<le> binade y" by simp
  then have "(2 :: rat) powi (binade x + 1) \<le> 2 powi (binade y)" by (intro power_int_increasing) auto
  with f64_in_binade(2) [OF assms(1)] f64_in_binade(1) [of y] assms show ?thesis by linarith
qed

lemma f64_nonneg: "0 \<le> x \<Longrightarrow> 0 \<le> f64 x"
proof (cases "x = 0")
  case False
  assume "0 \<le> x"
  with False have "0 < x" by simp
  from f64_in_binade(1) [OF this] show ?thesis by (rule order_trans [rotated]) simp
qed (simp add: f64_def)

lemma f64_mono: "x \<le> y \<Longrightarrow> f64 x \<le> f64 y"
proof -
  assume xy: "x \<le> y"
  consider "0 < x" | "x \<le> 0" "0 \<le> y" | "y < 0" using xy by linarith
  then show ?thesis
  proof cases
    case 1
    then show ?thesis using xy by (rule f64_mono_pos)
  next
    case 2
    then show ?thesis using f64_nonneg [of y] f64_nonneg [of "- x"] by (simp add: f64_minus)
  next
    case 3
    then show ?thesis using xy f64_mono_pos [of "- y" "- x"] by (simp add: f64_minus)
  qed
qed

text \<open>Go's truncated quotient and remainder.\<close>

lemma sdiv_smod_parts:
  fixes d c :: int
  assumes "0 < c"
  shows "\<bar>d smod c\<bar> < c" and "\<bar>d sdiv c\<bar> = \<bar>d\<bar> div c"
    and "(of_int d :: rat) / of_int c = of_int (d sdiv c) + of_int (d smod c) / of_int c"
proof -
  show "\<bar>d smod c\<bar> < c"
    using assms by (simp add: signed_modulo_int_def abs_mult sgn_if)
  show "\<bar>d sdiv c\<bar> = \<bar>d\<bar> div c"
    using assms by (auto simp: signed_divide_int_def abs_mult sgn_if pos_imp_zdiv_nonneg_iff)
  have "(of_int d :: rat) = of_int (d sdiv c * c + d smod c)"
    by (simp add: sdiv_mult_smod_eq)
  then show "(of_int d :: rat) / of_int c = of_int (d sdiv c) + of_int (d smod c) / of_int c"
    using assms by (simp add: add_divide_distrib)
qed

lemma smod_sign:
  fixes d c :: int
  assumes "0 < c"
  shows "0 < d smod c \<Longrightarrow> 0 < d" and "d smod c < 0 \<Longrightarrow> d < 0"
  using assms by (auto simp: signed_modulo_int_def sgn_if dest: leD [OF pos_mod_sign] split: if_splits)

lemma sdiv_mono:
  fixes d d' c :: int
  assumes "0 < c" and "d \<le> d'"
  shows "d sdiv c \<le> d' sdiv c"
proof -
  consider "0 \<le> d" | "d < 0" "0 \<le> d'" | "d' < 0" by linarith
  then show ?thesis
  proof cases
    case 1
    with assms show ?thesis by (simp add: signed_divide_int_def sgn_if zdiv_mono1 pos_imp_zdiv_nonneg_iff)
  next
    case 2
    with assms have "0 \<le> - d div c" "0 \<le> d' div c" by (simp_all add: pos_imp_zdiv_nonneg_iff)
    with 2 assms show ?thesis by (simp add: signed_divide_int_def sgn_if)
  next
    case 3
    with assms have "- d' div c \<le> - d div c" by (intro zdiv_mono1) auto
    with 3 assms show ?thesis by (simp add: signed_divide_int_def sgn_if)
  qed
qed

lemma floor_div_bounds:
  fixes d c :: int
  assumes "0 < c"
  shows "(of_int (d div c) :: rat) \<le> of_int d / of_int c"
    and "(of_int d :: rat) / of_int c \<le> of_int (d div c + 1)"
  using assms floor_divide_of_int_eq [of d c, where ?'a = rat] by linarith+

section \<open>The rounding contract and what the calendar arithmetic gets from it\<close>

text \<open>
  What the program relies on in double-precision rounding: it never crosses an integer below
  \<open>2^53\<close>, and its relative error is at most \<open>2^-53\<close>.  From these two laws the split computation
  of \<open>Hours\<close> and \<open>Seconds\<close> followed by \<open>math.Floor\<close> is exact except in a sliver below each
  boundary.
\<close>

locale float_rounding =
  fixes fl :: "rat \<Rightarrow> rat"
  assumes fl_le_int: "\<bar>x\<bar> < 2 ^ 53 \<Longrightarrow> x \<le> of_int n \<Longrightarrow> fl x \<le> of_int n"
    and fl_ge_int: "\<bar>x\<bar> < 2 ^ 53 \<Longrightarrow> of_int n \<le> x \<Longrightarrow> of_int n \<le> fl x"
    and fl_error: "\<bar>fl x - x\<bar> \<le> \<bar>x\<bar> / 2 ^ 53"
begin

lemma fl_int: "\<bar>n\<bar> < 2 ^ 53 \<Longrightarrow> fl (of_int n) = of_int n"
proof -
  assume "\<bar>n\<bar> < 2 ^ 53"
  then have "(of_int \<bar>n\<bar> :: rat) < of_int (2 ^ 53)" by (simp only: of_int_less_iff)
  then have "\<bar>of_int n :: rat\<bar> < 2 ^ 53" by simp
  then show ?thesis by (intro antisym fl_le_int fl_ge_int) auto
qed

text \<open>
  The split sum: a whole part plus a rounded proper fraction \<open>r / c\<close> stays on the same side of
  every integer as the exact sum, and close to it.
\<close>

lemma fraction_bounds:
  fixes r c :: int
  assumes c: "0 < c" and r: "\<bar>r\<bar> < c"
  defines "q \<equiv> of_int r / of_int c"
  shows "\<bar>q\<bar> < 1" and "0 \<le> r \<longleftrightarrow> 0 \<le> q" and "fl q \<le> 1" and "-1 \<le> fl q"
    and "0 \<le> r \<Longrightarrow> 0 \<le> fl q" and "r \<le> 0 \<Longrightarrow> fl q \<le> 0" and "\<bar>fl q - q\<bar> \<le> 1 / 2 ^ 53"
proof -
  have c': "(0 :: rat) < of_int c" using c by simp
  have "\<bar>of_int r :: rat\<bar> < of_int c"
    using r by (metis of_int_abs of_int_less_iff)
  with c' show q: "\<bar>q\<bar> < 1" by (simp add: q_def)
  then have q53: "\<bar>q\<bar> < 2 ^ 53" by simp
  show "0 \<le> r \<longleftrightarrow> 0 \<le> q" using c' by (simp add: q_def zero_le_divide_iff)
  show "fl q \<le> 1" "-1 \<le> fl q"
    using fl_le_int [OF q53, of 1] fl_ge_int [OF q53, of "-1"] q by auto
  show "0 \<le> r \<Longrightarrow> 0 \<le> fl q"
    using fl_ge_int [OF q53, of 0] c' by (simp add: q_def)
  show "r \<le> 0 \<Longrightarrow> fl q \<le> 0"
    using fl_le_int [OF q53, of 0] c' by (simp add: q_def divide_nonpos_pos)
  show "\<bar>fl q - q\<bar> \<le> 1 / 2 ^ 53"
    using fl_error [of q] q by simp
qed

lemma split_sum_arg:
  fixes w r c :: int
  assumes "0 < c" and "\<bar>r\<bar> < c" and "\<bar>w\<bar> < 2 ^ 52"
  shows "\<bar>of_int w + fl (of_int r / of_int c)\<bar> \<le> \<bar>of_int w\<bar> + 1"
    and "\<bar>of_int w + fl (of_int r / of_int c)\<bar> < 2 ^ 53"
proof -
  show le: "\<bar>of_int w + fl (of_int r / of_int c)\<bar> \<le> \<bar>of_int w\<bar> + 1"
    using fraction_bounds(3,4) [OF assms(1,2)] by linarith
  have "(of_int \<bar>w\<bar> :: rat) < of_int (2 ^ 52)" using assms(3) by (simp only: of_int_less_iff)
  with le show "\<bar>of_int w + fl (of_int r / of_int c)\<bar> < 2 ^ 53" by simp
qed

lemma split_sum_ge:
  fixes w r c n :: int
  assumes cr: "0 < c" "\<bar>r\<bar> < c" and w: "\<bar>w\<bar> < 2 ^ 52"
    and n: "(of_int n :: rat) \<le> of_int w + of_int r / of_int c"
  shows "of_int n \<le> fl (of_int w + fl (of_int r / of_int c))"
proof (rule fl_ge_int [OF split_sum_arg(2) [OF cr w]], cases "0 \<le> r")
  case True
  from n fraction_bounds(1) [OF cr] have "(of_int n :: rat) < of_int w + 1"
    by linarith
  then have "n \<le> w" by linarith
  then have "(of_int n :: rat) \<le> of_int w" by simp
  with fraction_bounds(5) [OF cr True] show "of_int n \<le> of_int w + fl (of_int r / of_int c)" by linarith
next
  case False
  then have "of_int r / of_int c < (0 :: rat)"
    using fraction_bounds(2) [OF cr] by linarith
  with n have "n < w" by linarith
  then have "(of_int n :: rat) \<le> of_int w - 1" by linarith
  with fraction_bounds(4) [OF cr] show "of_int n \<le> of_int w + fl (of_int r / of_int c)" by linarith
qed

lemma split_sum_le:
  fixes w r c n :: int
  assumes cr: "0 < c" "\<bar>r\<bar> < c" and w: "\<bar>w\<bar> < 2 ^ 52"
    and n: "of_int w + of_int r / of_int c \<le> (of_int n :: rat)"
  shows "fl (of_int w + fl (of_int r / of_int c)) \<le> of_int n"
proof (rule fl_le_int [OF split_sum_arg(2) [OF cr w]], cases "r \<le> 0")
  case True
  from n fraction_bounds(1) [OF cr] have "of_int w - 1 < (of_int n :: rat)"
    by linarith
  then have "w \<le> n" by linarith
  then have "(of_int w :: rat) \<le> of_int n" by simp
  with fraction_bounds(6) [OF cr True] show "of_int w + fl (of_int r / of_int c) \<le> of_int n" by linarith
next
  case False
  then have "0 < of_int r / (of_int c :: rat)" using cr by simp
  with n have "w < n" by linarith
  then have "(of_int w :: rat) + 1 \<le> of_int n" by linarith
  with fraction_bounds(3) [OF cr] show "of_int w + fl (of_int r / of_int c) \<le> of_int n" by linarith
qed

lemma split_sum_error:
  fixes w r c :: int
  assumes cr: "0 < c" "\<bar>r\<bar> < c" and w: "\<bar>w\<bar> < 2 ^ 52"
  shows "\<bar>fl (of_int w + fl (of_int r / of_int c)) - (of_int w + of_int r / of_int c)\<bar>
           \<le> (\<bar>of_int w\<bar> + 2) / 2 ^ 53"
proof -
  let ?q = "of_int r / of_int c :: rat"
  let ?s = "of_int w + fl ?q"
  have "\<bar>fl ?s - ?s\<bar> \<le> (\<bar>of_int w\<bar> + 1) / 2 ^ 53"
    using fl_error [of ?s] split_sum_arg(1) [OF cr w]
    by (rule order_trans [OF _ divide_right_mono]) simp
  moreover have "\<bar>fl ?q - ?q\<bar> \<le> 1 / 2 ^ 53" by (rule fraction_bounds(7) [OF cr])
  ultimately have "\<bar>fl ?s - (of_int w + ?q)\<bar> \<le> (\<bar>of_int w\<bar> + 1) / 2 ^ 53 + 1 / 2 ^ 53"
    by linarith
  then show ?thesis by (simp add: add_divide_distrib)
qed

text \<open>Hours since or until an instant, divided by 24 and rounded down.\<close>

definition hours :: "int \<Rightarrow> rat" where
  "hours d = fl (of_int (d sdiv Hour) + fl (of_int (d smod Hour) / of_int Hour))"

lemma hours_bounds:
  assumes d: "in_int64 d"
  shows "(of_int n :: rat) \<le> of_int d / of_int Hour \<Longrightarrow> of_int n \<le> hours d"
    and "of_int d / of_int Hour \<le> (of_int n :: rat) \<Longrightarrow> hours d \<le> of_int n"
    and "\<bar>hours d - of_int d / of_int Hour\<bar> \<le> 1 / 2 ^ 31"
    and "\<bar>hours d\<bar> \<le> 2562049"
proof -
  let ?w = "d sdiv Hour" and ?r = "d smod Hour"
  have h: "(0 :: int) < Hour" by simp
  note parts = sdiv_smod_parts [OF h, of d]
  have "\<bar>d\<bar> div Hour \<le> 2562048"
    using d zdiv_mono1 [of "\<bar>d\<bar>" "2 ^ 63" Hour] by (auto simp: in_int64_def)
  then have w': "\<bar>?w\<bar> \<le> 2562048" by (simp only: parts(2))
  then have w: "\<bar>?w\<bar> < 2 ^ 52" by simp
  from w' have wr: "(of_int \<bar>?w\<bar> :: rat) \<le> of_int 2562048" by (simp only: of_int_le_iff)
  show lo: "(of_int n :: rat) \<le> of_int d / of_int Hour \<Longrightarrow> of_int n \<le> hours d" for n
    unfolding hours_def parts(3) by (rule split_sum_ge [OF h parts(1) w])
  show hi: "of_int d / of_int Hour \<le> (of_int n :: rat) \<Longrightarrow> hours d \<le> of_int n" for n
    unfolding hours_def parts(3) by (rule split_sum_le [OF h parts(1) w])
  have "\<bar>hours d - of_int d / of_int Hour\<bar> \<le> (\<bar>of_int ?w\<bar> + 2) / 2 ^ 53"
    unfolding hours_def parts(3) by (rule split_sum_error [OF h parts(1) w])
  also have "\<dots> \<le> 1 / 2 ^ 31" using wr by simp
  finally show "\<bar>hours d - of_int d / of_int Hour\<bar> \<le> 1 / 2 ^ 31" .
  have "\<bar>of_int d / of_int Hour :: rat\<bar> \<le> of_int 2562049"
    unfolding parts(3) using wr fraction_bounds(1) [OF h parts(1)] by (simp add: abs_le_iff) linarith
  then have "hours d \<le> of_int 2562049" "of_int (- 2562049) \<le> hours d"
    by (intro hi lo; simp add: abs_le_iff)+
  then show "\<bar>hours d\<bar> \<le> 2562049" by simp
qed

lemma floor_days_bounds:
  assumes d: "in_int64 d"
  shows "d div Day \<le> \<lfloor>fl (hours d / 24)\<rfloor>" and "\<lfloor>fl (hours d / 24)\<rfloor> \<le> d div Day + 1"
proof -
  let ?k = "d div Day"
  have small: "\<bar>hours d / 24\<bar> < 2 ^ 53" using hours_bounds(4) [OF d] by simp
  have "(of_int (24 * ?k) :: rat) \<le> of_int d / of_int Hour"
    using floor_div_bounds(1) [of Day d] by simp
  from hours_bounds(1) [OF d this] have "of_int ?k \<le> hours d / 24" by simp
  from fl_ge_int [OF small this] show "?k \<le> \<lfloor>fl (hours d / 24)\<rfloor>" by (simp add: le_floor_iff)
  have "(of_int d :: rat) / of_int Hour \<le> of_int (24 * (?k + 1))"
    using floor_div_bounds(2) [of Day d] by simp
  from hours_bounds(2) [OF d this] have "hours d / 24 \<le> of_int (?k + 1)" by simp
  from fl_le_int [OF small this] show "\<lfloor>fl (hours d / 24)\<rfloor> \<le> ?k + 1" by linarith
qed

lemma floor_days_exact:
  assumes d: "in_int64 d" and margin: "d mod Day + Millisecond \<le> Day"
  shows "\<lfloor>fl (hours d / 24)\<rfloor> = d div Day"
proof -
  let ?k = "d div Day"
  have "(?k + 1) * Day = d - d mod Day + Day"
    by (simp add: distrib_right minus_mod_eq_div_mult [symmetric])
  with margin have "d + Millisecond \<le> (?k + 1) * Day" by linarith
  then have "(of_int (d + Millisecond) :: rat) \<le> of_int ((?k + 1) * Day)" by (simp only: of_int_le_iff)
  then have x: "(of_int d :: rat) / of_int Hour / 24 \<le> of_int ?k + 1 - 1 / 2 ^ 27" by simp
  have "\<bar>hours d / 24 - of_int d / of_int Hour / 24\<bar> \<le> 1 / 2 ^ 31"
    using hours_bounds(3) [OF d] unfolding of_int_numeral abs_le_iff by linarith
  moreover have "\<bar>fl (hours d / 24) - hours d / 24\<bar> \<le> 1 / 2 ^ 31"
  proof (rule order_trans [OF fl_error])
    show "\<bar>hours d / 24\<bar> / 2 ^ 53 \<le> 1 / 2 ^ 31" using hours_bounds(4) [OF d] by simp
  qed
  moreover have "1 / 2 ^ 31 + 1 / 2 ^ 31 < (1 / 2 ^ 27 :: rat)" by simp
  ultimately have "fl (hours d / 24) < of_int ?k + 1"
    using x unfolding of_int_numeral abs_le_iff by linarith
  then have "\<lfloor>fl (hours d / 24)\<rfloor> \<le> ?k" by linarith
  with floor_days_bounds(1) [OF d] show ?thesis by simp
qed

text \<open>Seconds, rounded down: off by one at most, and only in the last millisecond of a second.\<close>

lemma floor_seconds:
  fixes d :: int
  assumes d: "in_int64 d" "0 \<le> d"
  defines "s \<equiv> fl (of_int (d sdiv Second) + fl (of_int (d smod Second) / of_int Second))"
  shows "d div Second \<le> \<lfloor>s\<rfloor>" and "\<lfloor>s\<rfloor> \<le> d div Second + 1" and "0 \<le> s"
    and "d mod Second + Millisecond \<le> Second \<Longrightarrow> \<lfloor>s\<rfloor> = d div Second"
proof -
  let ?w = "d sdiv Second" and ?r = "d smod Second"
  have c: "(0 :: int) < Second" by simp
  note parts = sdiv_smod_parts [OF c, of d]
  have w0: "?w = d div Second" and r0: "?r = d mod Second"
    using d(2) by (simp_all add: signed_divide_int_def signed_modulo_int_def sgn_if)
  have "d div Second \<le> 9223372036" using d zdiv_mono1 [of d "2 ^ 63" Second] by (simp add: in_int64_def)
  with d(2) have w: "\<bar>?w\<bar> \<le> 9223372036" unfolding w0 by (simp add: pos_imp_zdiv_nonneg_iff)
  then have w52: "\<bar>?w\<bar> < 2 ^ 52" by simp
  have ge: "of_int n \<le> s" if "of_int n \<le> (of_int ?w + of_int ?r / of_int Second :: rat)" for n
    unfolding s_def by (rule split_sum_ge [OF c parts(1) w52 that])
  have le: "s \<le> of_int n" if "(of_int ?w + of_int ?r / of_int Second :: rat) \<le> of_int n" for n
    unfolding s_def by (rule split_sum_le [OF c parts(1) w52 that])
  have r: "0 \<le> ?r" "?r < Second" unfolding r0 by simp_all
  then have q: "(0 :: rat) \<le> of_int ?r / of_int Second" "(of_int ?r / of_int Second :: rat) \<le> 1" by simp_all
  from ge [of ?w] q(1) have "of_int ?w \<le> s" by simp
  then show lo: "d div Second \<le> \<lfloor>s\<rfloor>" by (simp add: w0 le_floor_iff)
  from le [of "?w + 1"] q(2) have "s \<le> of_int (?w + 1)" by simp
  then show "\<lfloor>s\<rfloor> \<le> d div Second + 1" unfolding w0 by linarith
  have "0 \<le> d div Second" using d(2) by (simp add: pos_imp_zdiv_nonneg_iff)
  with lo have "0 \<le> \<lfloor>s\<rfloor>" by (rule order_trans [rotated])
  then show "0 \<le> s" by simp
  assume "d mod Second + Millisecond \<le> Second"
  then have "(of_int (?r + Millisecond) :: rat) \<le> of_int Second" unfolding r0 by (simp only: of_int_le_iff)
  then have "(of_int ?r / of_int Second :: rat) \<le> 1 - 1 / 1000" by simp
  moreover have "\<bar>s - (of_int ?w + of_int ?r / of_int Second)\<bar> \<le> (\<bar>of_int ?w\<bar> + 2) / 2 ^ 53"
    unfolding s_def by (rule split_sum_error [OF c parts(1) w52])
  moreover have "(\<bar>of_int ?w\<bar> + 2) / 2 ^ 53 < (1 / 1000 :: rat)"
  proof -
    have "(of_int \<bar>?w\<bar> :: rat) \<le> of_int 9223372036" using w by (simp only: of_int_le_iff)
    then show ?thesis by simp
  qed
  ultimately have "s < of_int ?w + 1" unfolding abs_le_iff by linarith
  then have "\<lfloor>s\<rfloor> \<le> ?w" by linarith
  with lo show "\<lfloor>s\<rfloor> = d div Second" by (simp add: w0)
qed

end

text \<open>With monotone rounding the whole computation is monotone.\<close>

locale monotone_rounding = float_rounding +
  assumes fl_mono: "x \<le> y \<Longrightarrow> fl x \<le> fl y"
begin

lemma hours_mono:
  assumes "d \<le> d'"
  shows "hours d \<le> hours d'"
proof -
  have h: "(0 :: int) < Hour" by simp
  let ?w = "d sdiv Hour" and ?r = "d smod Hour" and ?w' = "d' sdiv Hour" and ?r' = "d' smod Hour"
  let ?q = "of_int ?r / of_int Hour :: rat" and ?q' = "of_int ?r' / of_int Hour :: rat"
  note p = sdiv_smod_parts [OF h, of d] and p' = sdiv_smod_parts [OF h, of d']
  note b = fraction_bounds [OF h p(1)] and b' = fraction_bounds [OF h p'(1)]
  have sum: "of_int ?w + ?q \<le> of_int ?w' + ?q'"
    using assms p(3) p'(3) by (simp add: divide_right_mono flip: p(3) p'(3))
  have step: "x < y \<Longrightarrow> of_int x + 1 \<le> (of_int y :: rat)" for x y :: int by linarith
  consider "?w = ?w'" | "?w < ?w'" "0 \<le> ?r'" | "?w < ?w'" "?r \<le> 0" | "?w < ?w'" "0 < ?r" "?r' < 0" | "?w' < ?w"
    by linarith
  then have "of_int ?w + fl ?q \<le> of_int ?w' + fl ?q'"
  proof cases
    case 1
    with sum have "?q \<le> ?q'" by simp
    with 1 show ?thesis by (simp add: fl_mono)
  next
    case 2
    with step [of ?w ?w'] b(3) b'(5) show ?thesis by linarith
  next
    case 3
    with step [of ?w ?w'] b(6) b'(4) show ?thesis by linarith
  next
    case 4
    with smod_sign [OF h, of d] smod_sign [OF h, of d'] assms show ?thesis by linarith
  next
    case 5
    with sdiv_mono [OF h assms] show ?thesis by linarith
  qed
  then show ?thesis unfolding hours_def by (rule fl_mono)
qed

lemma floor_days_mono:
  assumes "d \<le> d'"
  shows "\<lfloor>fl (hours d / 24)\<rfloor> \<le> \<lfloor>fl (hours d' / 24)\<rfloor>"
  using hours_mono [OF assms] by (intro floor_mono fl_mono divide_right_mono) auto

end

interpretation f64: monotone_rounding f64
  by unfold_locales (fact f64_le_int f64_ge_int f64_error f64_mono)+

lemma Duration_Hours_eq: "Duration_Hours = f64.hours"
  by (simp add: fun_eq_iff Duration_Hours_def f64.hours_def)

end
