(* ===== verification/GoBigInt.thy ===== *)
theory GoBigInt
  imports Prelude
begin

text \<open>
  Package \<open>math/big\<close> as the responder uses it: a serial number is an \<open>int\<close>; \<open>String\<close> (decimal) is the
  key of every cache and of the CRL index, \<open>Text(16)\<close> goes into the CA's URL, and \<open>Bytes\<close> through
  \<open>hex.EncodeToString\<close> into the log.  The facts that matter are that these texts determine the
  number, so that two serials never share a key.
\<close>

definition digit_char :: "nat \<Rightarrow> char" where
  "digit_char d = ''0123456789abcdef'' ! d"

function nat_text :: "nat \<Rightarrow> nat \<Rightarrow> string" where
  "nat_text b n = (if b < 2 \<or> n < b then [digit_char n]
                   else nat_text b (n div b) @ [digit_char (n mod b)])"
  by pat_completeness auto
termination
  by (relation "measure (\<lambda>(b, n). n)") auto

declare nat_text.simps [simp del]

definition big_Text :: "nat \<Rightarrow> int \<Rightarrow> string" where
  "big_Text b x = (if x < 0 then CHR ''-'' # nat_text b (nat (- x)) else nat_text b (nat x))"

definition big_String :: "int \<Rightarrow> string" where
  "big_String x = big_Text 10 x"

text \<open>\<open>Bytes\<close>: the absolute value, big-endian, without leading zeros (empty for 0).\<close>

function nat_bytes :: "nat \<Rightarrow> bytes" where
  "nat_bytes n = (if n = 0 then [] else nat_bytes (n div 256) @ [of_nat (n mod 256)])"
  by pat_completeness auto
termination
  by (relation "measure id") auto

declare nat_bytes.simps [simp del]

definition big_Bytes :: "int \<Rightarrow> bytes" where
  "big_Bytes x = nat_bytes (nat \<bar>x\<bar>)"

text \<open>\<open>hex.EncodeToString\<close>: two lower-case digits per byte.\<close>

definition hex_EncodeToString :: "bytes \<Rightarrow> string" where
  "hex_EncodeToString bs =
     concat (map (\<lambda>b. [digit_char (unat b div 16), digit_char (unat b mod 16)]) bs)"

section \<open>Reading the texts back\<close>

definition char_digit :: "char \<Rightarrow> nat" where
  "char_digit c = (let k = (of_char c :: nat) in if k \<le> 57 then k - 48 else k - 87)"

definition text_val :: "nat \<Rightarrow> string \<Rightarrow> nat" where
  "text_val b s = foldl (\<lambda>acc c. acc * b + char_digit c) 0 s"

lemma less_16_cases:
  "(d :: nat) < 16 \<Longrightarrow> d \<in> {0, 1, 2, 3, 4, 5, 6, 7, 8, 9, 10, 11, 12, 13, 14, 15}"
  by (simp, arith)

lemma char_digit_digit_char [simp]: "d < 16 \<Longrightarrow> char_digit (digit_char d) = d"
  by (drule less_16_cases) (auto simp: digit_char_def char_digit_def)

lemma digit_char_not_minus: "d < 16 \<Longrightarrow> digit_char d \<noteq> CHR ''-''"
  by (drule less_16_cases) (auto simp: digit_char_def)

lemma text_val_append: "text_val b (s @ [c]) = text_val b s * b + char_digit c"
  by (simp add: text_val_def)

lemma text_val_nat_text:
  assumes "2 \<le> b" and "b \<le> 16"
  shows "text_val b (nat_text b n) = n"
  using assms
proof (induction b n rule: nat_text.induct)
  case (1 b n)
  show ?case
  proof (cases "n < b")
    case True
    with 1 show ?thesis by (simp add: nat_text.simps [of b n] text_val_def)
  next
    case False
    with 1 have "text_val b (nat_text b (n div b)) = n div b" by simp
    moreover have "n mod b < 16" using 1 by (intro less_le_trans [OF mod_less_divisor]) auto
    ultimately show ?thesis
      using False 1 by (simp add: nat_text.simps [of b n] text_val_append)
  qed
qed

lemma nat_text_hd:
  assumes "2 \<le> b" and "b \<le> 16"
  shows "nat_text b n \<noteq> [] \<and> hd (nat_text b n) \<noteq> CHR ''-''"
  using assms
proof (induction b n rule: nat_text.induct)
  case (1 b n)
  show ?case
  proof (cases "n < b")
    case True
    with 1 show ?thesis by (simp add: nat_text.simps [of b n] digit_char_not_minus)
  next
    case False
    with 1 have "nat_text b (n div b) \<noteq> [] \<and> hd (nat_text b (n div b)) \<noteq> CHR ''-''" by simp
    with False 1 show ?thesis by (simp add: nat_text.simps [of b n])
  qed
qed

lemma big_Text_inject:
  assumes b: "2 \<le> b" "b \<le> 16" and eq: "big_Text b x = big_Text b y"
  shows "x = y"
proof -
  have val: "nat_text b m = nat_text b n \<Longrightarrow> m = n" for m n
    using text_val_nat_text [OF b] by metis
  have hd: "nat_text b m \<noteq> CHR ''-'' # s" for m s
    using nat_text_hd [OF b, of m] by auto
  show ?thesis
    using eq val [of "nat x" "nat y"] val [of "nat (- x)" "nat (- y)"] hd hd [symmetric]
    by (auto simp: big_Text_def split: if_splits)
qed

lemma big_String_inject [simp]: "big_String x = big_String y \<longleftrightarrow> x = y"
  using big_Text_inject [of 10 x y] by (auto simp: big_String_def)

lemma inj_big_String: "inj big_String"
  by (simp add: inj_def)

section \<open>The logged serial\<close>

lemma text_val_append2:
  "text_val b (s @ t) = text_val b s * b ^ length t + text_val b t"
proof (induction t rule: rev_induct)
  case Nil
  then show ?case by (simp add: text_val_def)
next
  case (snoc c t)
  have "text_val b (s @ t @ [c]) = text_val b (s @ t) * b + char_digit c"
    using text_val_append [of b "s @ t" c] by simp
  with snoc show ?case by (simp add: text_val_append algebra_simps)
qed

lemma text_val_hex_nat_bytes: "text_val 16 (hex_EncodeToString (nat_bytes n)) = n"
proof (induction n rule: nat_bytes.induct)
  case (1 n)
  show ?case
  proof (cases "n = 0")
    case True
    then show ?thesis by (simp add: nat_bytes.simps hex_EncodeToString_def text_val_def)
  next
    case False
    let ?m = "n mod 256"
    have u: "unat (of_nat ?m :: byte) = ?m" by (simp add: unat_of_nat)
    have "hex_EncodeToString (nat_bytes n) =
          hex_EncodeToString (nat_bytes (n div 256)) @ [digit_char (?m div 16), digit_char (?m mod 16)]"
      using False u by (subst nat_bytes.simps) (simp add: hex_EncodeToString_def)
    moreover have "?m div 16 < 16" by (simp add: less_mult_imp_div_less)
    moreover have "text_val 16 [digit_char (?m div 16), digit_char (?m mod 16)] = ?m"
      using \<open>?m div 16 < 16\<close> by (simp add: text_val_def)
    ultimately show ?thesis using 1 [OF False] by (simp add: text_val_append2)
  qed
qed

end
