(* ===== verification/SourceTypes.thy ===== *)
theory SourceTypes
  imports GoTime GoBigInt
begin

text \<open>
  \<open>internal/source/source.go\<close>: the status vocabulary, the \<open>Source\<close> interface and the contract every
  backend honours.  The interface is a record of operations over the backend's own state \<open>'s\<close> and a
  per-call environment \<open>'e\<close> (the context's error, clock readings, network answers): Go's dynamic
  dispatch becomes passing the record.  Also the parts of \<open>crypto/x509\<close> and \<open>context\<close> the packages
  share, and the calls on the telemetry interfaces, which are recorded in order as data.
\<close>

section \<open>Certificates and contexts\<close>

datatype PublicKey =
    RSAPublicKey int int        \<comment> \<open>N, E\<close>
  | ECDSAPublicKey int int      \<comment> \<open>X, Y\<close>
  | OtherPublicKey

record Certificate =
  RawSubject :: bytes
  RawSubjectPublicKeyInfo :: bytes
  cert_PublicKey :: PublicKey
  IsCA :: bool
  KeyUsage :: "64 word"
  ExtKeyUsage :: "int list"
  NotBefore :: Time
  NotAfter :: Time

datatype ctx_error = Canceled | DeadlineExceeded

section \<open>Statuses\<close>

text \<open>
  \<open>type Status int\<close> with three named constants; \<open>StatusOther\<close> stands for the remaining integers, which
  the switches of the signer and of \<open>statusString\<close> have a default branch for.
\<close>

datatype Status = StatusGood | StatusRevoked | StatusUnknown | StatusOther int

record RevocationInfo =
  RevokedAt :: Time
  Reason :: int

record CertStatus =
  cs_Status :: Status
  cs_RevocationInfo :: "RevocationInfo option"
  cs_SourceNextUpdate :: Time

section \<open>Errors\<close>

text \<open>
  What a failed exchange with the CA unwraps to under \<open>errors.Is\<close>: one of the two context errors, or
  neither.
\<close>

datatype transport_error = TransportCtx ctx_error | TransportOther

datatype source_error =
    CtxErr ctx_error
  | ErrSourceUnhealthy
  | ErrInvalidCRL
  | NewIssuerRequired
  | IssuerRequired
  | IssuerMismatch
  | CRLIssuerMismatch
  | CRLSignatureFailed
  | CRLDownloadFailed
  | CRLDownloadStatus nat
  | CRLBodyFailed
  | CRLFileFailed
  | InvalidStaticStatus string
  | EmptyBaseURL
  | RootCertUnreadable
  | RootCertNoPEM string
  | CreatingRequest
  | HttpGetFailed transport_error
  | DecodingResponse transport_error
  | UnexpectedStatusCode nat
  | AllAttemptsFailed int "source_error option"

section \<open>Telemetry calls\<close>

text \<open>
  One constructor per method of \<open>responder.MetricsRecorder\<close> and \<open>source.HTTPObserver\<close>, and the update of
  the optional cache gauge.  Durations are kept in nanoseconds.
\<close>

datatype metric_call =
    RecordRequest string string Duration
  | RecordSourceRequest string string
  | RecordCacheHit
  | RecordCacheMiss
  | RecordSourceLatency string Duration
  | RecordSourceRetry string
  | RecordSourceError string string
  | CacheEntriesSet nat

section \<open>The Source interface\<close>

record call_env =
  ce_ctxErr :: "ctx_error option"
  ce_now :: Time

record ('e, 's) Source =
  GetStatus :: "'e \<Rightarrow> int \<Rightarrow> Certificate option \<Rightarrow> 's
      \<Rightarrow> (source_error + CertStatus option) \<times> 's \<times> metric_call list"
  Name :: "'s \<Rightarrow> string"
  Healthy :: "Time \<Rightarrow> 's \<Rightarrow> bool"

text \<open>
  A status a backend may answer with: one of the three named statuses, revocation details exactly
  when revoked.
\<close>

fun wf_CertStatus :: "CertStatus \<Rightarrow> bool" where
  "wf_CertStatus cs =
     (case cs_Status cs of
        StatusRevoked \<Rightarrow> cs_RevocationInfo cs \<noteq> None
      | StatusOther _ \<Rightarrow> False
      | _ \<Rightarrow> cs_RevocationInfo cs = None)"

declare wf_CertStatus.simps [simp del]

section \<open>The contract of a source\<close>

text \<open>
  The contract of \<open>Source\<close> ("must never return StatusGood as a fallback on errors") over any backend:
  \<open>inv\<close> is the backend's state invariant, \<open>ctxErr\<close> the error its context already carries on entry,
  \<open>vouches e s n\<close> that the backend's own data says \<open>good\<close> for serial \<open>n\<close> on that call, and
  \<open>revokes e s n i\<close> that it says \<open>revoked\<close> with details \<open>i\<close>.
\<close>

locale status_source =
  fixes ops :: "('e, 's) Source"
    and inv :: "'s \<Rightarrow> bool"
    and ctxErr :: "'e \<Rightarrow> ctx_error option"
    and vouches :: "'e \<Rightarrow> 's \<Rightarrow> int \<Rightarrow> bool"
    and revokes :: "'e \<Rightarrow> 's \<Rightarrow> int \<Rightarrow> RevocationInfo \<Rightarrow> bool"
  assumes inv_GetStatus: "inv s \<Longrightarrow> GetStatus ops e n i s = (r, s', ev) \<Longrightarrow> inv s'"
    and ctx_GetStatus: "ctxErr e = Some c \<Longrightarrow> GetStatus ops e n i s = (Inl (CtxErr c), s, [])"
    and wf_GetStatus: "inv s \<Longrightarrow> GetStatus ops e n i s = (Inr (Some cs), s', ev) \<Longrightarrow> wf_CertStatus cs"
    and good_GetStatus: "inv s \<Longrightarrow> GetStatus ops e n i s = (Inr (Some cs), s', ev) \<Longrightarrow>
          cs_Status cs = StatusGood \<Longrightarrow> vouches e s n"
    and revoked_GetStatus: "inv s \<Longrightarrow> GetStatus ops e n i s = (Inr (Some cs), s', ev) \<Longrightarrow>
          cs_Status cs = StatusRevoked \<Longrightarrow> cs_RevocationInfo cs = Some ri \<Longrightarrow> revokes e s n ri"
begin

text \<open>
  The status a responder derives from a lookup: what the source said, or \<open>unknown\<close> when the lookup
  failed or returned nothing.
\<close>

definition derived :: "source_error + CertStatus option \<Rightarrow> Status" where
  "derived r = (case r of Inr (Some cs) \<Rightarrow> cs_Status cs | _ \<Rightarrow> StatusUnknown)"

lemma derived_good:
  assumes "inv s" and "GetStatus ops e n i s = (r, s', ev)" and "derived r = StatusGood"
  shows "vouches e s n" and "ctxErr e = None"
proof -
  from assms(3) obtain cs where r: "r = Inr (Some cs)" and cs: "cs_Status cs = StatusGood"
    by (auto simp: derived_def split: sum.splits option.splits)
  with assms show "vouches e s n" by (auto intro: good_GetStatus)
  show "ctxErr e = None"
    using ctx_GetStatus [of e _ n i s] assms(2) r by (cases "ctxErr e") auto
qed

lemma derived_named:
  assumes "inv s" and "GetStatus ops e n i s = (r, s', ev)"
  shows "derived r \<in> {StatusGood, StatusRevoked, StatusUnknown}"
  using wf_GetStatus [OF assms(1), of e n i _ s' ev] assms(2)
  by (auto simp: derived_def wf_CertStatus.simps split: sum.splits option.splits Status.splits)

end

section \<open>The telemetry of a source\<close>

text \<open>
  The label values a call carries, and the calls of \<open>HTTPObserver\<close>, the only ones a source makes.  A
  label value has to be valid UTF-8; those of this program are ASCII.
\<close>

definition ascii :: "string \<Rightarrow> bool" where
  "ascii s \<longleftrightarrow> list_all (\<lambda>c. of_char c < (128 :: nat)) s"

fun call_labels :: "metric_call \<Rightarrow> string list" where
  "call_labels (RecordRequest meth status d) = [meth, status]"
| "call_labels (RecordSourceRequest name result) = [name, result]"
| "call_labels (RecordSourceLatency name d) = [name]"
| "call_labels (RecordSourceRetry name) = [name]"
| "call_labels (RecordSourceError name cls) = [name, cls]"
| "call_labels _ = []"

fun observer_call :: "metric_call \<Rightarrow> bool" where
  "observer_call (RecordSourceLatency name d) = True"
| "observer_call (RecordSourceRetry name) = True"
| "observer_call (RecordSourceError name cls) = True"
| "observer_call _ = False"

definition source_call :: "metric_call \<Rightarrow> bool" where
  "source_call c \<longleftrightarrow> observer_call c \<and> list_all ascii (call_labels c)"

locale telemetry_source =
  fixes ops :: "('e, 's) Source"
  assumes source_calls: "GetStatus ops e n i s = (r, s', ms) \<Longrightarrow> list_all source_call ms"
    and name_ascii: "ascii (Name ops s)"

end
