(* ===== verification/TTLCache.thy ===== *)
theory TTLCache
  imports GoTime
begin

text \<open>
  The contract of a cache whose entries carry a deadline, and what follows from it over any sequence
  of lookups and insertions.  The responder's cache of signed responses and the HTTP source's cache
  of CA answers both honour it.
\<close>

datatype ('a, 'k, 'v) cache_op =
    LookupOp Time 'k
  | StoreOp 'a Time 'k 'v

text \<open>
  \<open>entry c k\<close> is the value held for a key with its deadline; \<open>store a t k v\<close> inserts at instant \<open>t\<close>,
  where \<open>a\<close> holds what else decides the insertion (the eviction choice, the signed deadline), and
  \<open>bound a t\<close> is the latest deadline it may give.
\<close>

locale ttl_cache =
  fixes entry :: "'c \<Rightarrow> 'k \<Rightarrow> ('v \<times> Time) option"
    and lookup :: "Time \<Rightarrow> 'k \<Rightarrow> 'c \<Rightarrow> 'v option \<times> 'c"
    and store :: "'a \<Rightarrow> Time \<Rightarrow> 'k \<Rightarrow> 'v \<Rightarrow> 'c \<Rightarrow> 'c"
    and bound :: "'a \<Rightarrow> Time \<Rightarrow> Time"
    and inv :: "'c \<Rightarrow> bool"
  assumes inv_lookup: "inv c \<Longrightarrow> inv (snd (lookup now k c))"
    and inv_store: "inv c \<Longrightarrow> inv (store a t k v c)"
    and lookup_live: "inv c \<Longrightarrow> fst (lookup now k c) = Some v \<longleftrightarrow> (\<exists>x. entry c k = Some (v, x) \<and> now < x)"
    and lookup_sub: "inv c \<Longrightarrow> entry (snd (lookup now k c)) k' = Some e \<Longrightarrow> entry c k' = Some e"
    and lookup_keeps: "inv c \<Longrightarrow> entry c k' = Some (v, x) \<Longrightarrow> now < x \<Longrightarrow>
          entry (snd (lookup now k c)) k' = Some (v, x)"
    and store_entry: "inv c \<Longrightarrow> entry (store a t k v c) k' = Some (w, x) \<Longrightarrow>
          entry c k' = Some (w, x) \<or> k' = k \<and> w = v \<and> t < x \<and> x \<le> bound a t"
begin

fun do_op :: "('a, 'k, 'v) cache_op \<Rightarrow> 'c \<Rightarrow> 'c" where
  "do_op (LookupOp now k) c = snd (lookup now k c)"
| "do_op (StoreOp a t k v) c = store a t k v c"

abbreviation run_ops :: "('a, 'k, 'v) cache_op list \<Rightarrow> 'c \<Rightarrow> 'c" where
  "run_ops ops c \<equiv> fold do_op ops c"

lemma inv_run: "inv c \<Longrightarrow> inv (run_ops ops c)"
proof (induction ops arbitrary: c)
  case (Cons x ops)
  then show ?case by (cases x) (simp_all add: inv_lookup inv_store)
qed simp

lemma run_entry:
  assumes "inv c" and "entry (run_ops ops c) k = Some (v, x)"
  shows "entry c k = Some (v, x) \<or> (\<exists>a t. StoreOp a t k v \<in> set ops \<and> t < x \<and> x \<le> bound a t)"
  using assms
proof (induction ops arbitrary: c)
  case (Cons y ops)
  then have i: "inv (do_op y c)" by (cases y) (auto intro: inv_lookup inv_store)
  with Cons consider "entry (do_op y c) k = Some (v, x)"
    | "\<exists>a t. StoreOp a t k v \<in> set ops \<and> t < x \<and> x \<le> bound a t" by fastforce
  then show ?case
  proof cases
    case 1
    with Cons.prems(1) show ?thesis
      by (cases y) (auto dest: lookup_sub store_entry)
  qed auto
qed simp

text \<open>A value served after any history of an empty cache was inserted under that key and is still live.\<close>

lemma served_was_stored:
  assumes "inv c" and "\<And>k. entry c k = None" and "fst (lookup now k (run_ops ops c)) = Some v"
  shows "\<exists>a t. StoreOp a t k v \<in> set ops \<and> now < bound a t"
proof -
  from lookup_live [OF inv_run [OF assms(1)]] assms(3)
  obtain x where x: "entry (run_ops ops c) k = Some (v, x)" "now < x" by auto
  from run_entry [OF assms(1) this(1)] assms(2) x(2) show ?thesis
    by (auto intro: less_le_trans)
qed

text \<open>Lookups at or before \<open>now\<close> do not change what a lookup at \<open>now\<close> finds.\<close>

lemma lookup_stable:
  assumes "inv c" and "now' \<le> now"
  shows "fst (lookup now k (snd (lookup now' k' c))) = fst (lookup now k c)"
proof -
  have "fst (lookup now k (snd (lookup now' k' c))) = Some v \<longleftrightarrow> fst (lookup now k c) = Some v" for v
    unfolding lookup_live [OF assms(1)] lookup_live [OF inv_lookup [OF assms(1)]]
    using assms lookup_sub lookup_keeps by (meson order.strict_trans1)
  then show ?thesis by (metis not_None_eq)
qed

end

end
