(* ===== verification/ResponseCache.thy ===== *)
theory ResponseCache
  imports SourceTypes TTLCache
begin

text \<open>
  The signed-response cache of \<open>internal/responder/responder.go\<close>: a map from decimal serial to
  response bytes with a deadline, bounded in size, with the gauge that exports its size.  A lookup
  runs in two critical sections (a read, and an upgrade to the write lock when the entry has
  expired); both are operations of their own, so that other goroutines can run between them.

  The contract of a cache with deadlines is the locale \<open>ttl_cache\<close>; the cache of the HTTP source is
  another instance of it.
\<close>

section \<open>State\<close>

record cacheEntry =
  e_data :: bytes
  e_expiresAt :: Time

record cache =
  c_entries :: "(string \<times> cacheEntry) list"
  c_ttl :: Duration
  c_maxEntries :: int
  c_enabled :: bool
  c_entriesGauge :: bool

definition gauge_update :: "cache \<Rightarrow> metric_call list" where
  "gauge_update c = (if c_entriesGauge c then [CacheEntriesSet (length (c_entries c))] else [])"

section \<open>Lookup\<close>

datatype read_result = ReadAbsent | ReadExpired | ReadLive bytes

text \<open>The part of \<open>getAt\<close> up to the release of the read lock and the first comparison.\<close>

definition getAt_read :: "cache \<Rightarrow> string \<Rightarrow> Time \<Rightarrow> read_result" where
  "getAt_read c key now =
     (if \<not> c_enabled c then ReadAbsent
      else case map_of (c_entries c) key of
             None \<Rightarrow> ReadAbsent
           | Some e \<Rightarrow> if \<not> Before now (e_expiresAt e) then ReadExpired else ReadLive (e_data e))"

text \<open>The part under the write lock: the entry is read again.\<close>

definition getAt_upgrade :: "cache \<Rightarrow> string \<Rightarrow> Time \<Rightarrow> bytes option \<times> cache \<times> metric_call list" where
  "getAt_upgrade c key now =
     (case map_of (c_entries c) key of
        None \<Rightarrow> (None, c, [])
      | Some e \<Rightarrow>
          if Before now (e_expiresAt e) then (Some (e_data e), c, [])
          else (let c' = c\<lparr>c_entries := AList.delete key (c_entries c)\<rparr>
                in (None, c', gauge_update c')))"

text \<open>A lookup that no other goroutine interrupts.\<close>

definition getAt :: "cache \<Rightarrow> string \<Rightarrow> Time \<Rightarrow> bytes option \<times> cache \<times> metric_call list" where
  "getAt c key now =
     (case getAt_read c key now of
        ReadAbsent \<Rightarrow> (None, c, [])
      | ReadLive d \<Rightarrow> (Some d, c, [])
      | ReadExpired \<Rightarrow> getAt_upgrade c key now)"

section \<open>Insertion\<close>

definition entry_expiry :: "Duration \<Rightarrow> Time \<Rightarrow> Time \<Rightarrow> Time" where
  "entry_expiry ttl insertedAt signedNextUpdate =
     (let expiresAt = Time_Add insertedAt ttl in
      if \<not> IsZero signedNextUpdate \<and> Before signedNextUpdate expiresAt then signedNextUpdate
      else expiresAt)"

text \<open>
  Ranging over a Go map starts at an unspecified entry: \<open>pick\<close> is the position it starts at.
\<close>

definition evict_one :: "nat \<Rightarrow> (string \<times> cacheEntry) list \<Rightarrow> (string \<times> cacheEntry) list" where
  "evict_one pick es =
     (if es = [] then [] else AList.delete (fst (es ! (pick mod length es))) es)"

definition setAt ::
  "nat \<Rightarrow> cache \<Rightarrow> string \<Rightarrow> bytes \<Rightarrow> Time \<Rightarrow> Time \<Rightarrow> cache \<times> metric_call list" where
  "setAt pick c key data insertedAt signedNextUpdate =
     (if \<not> c_enabled c \<or> c_maxEntries c \<le> 0 then (c, [])
      else
        let expiresAt = entry_expiry (c_ttl c) insertedAt signedNextUpdate in
        if \<not> Before insertedAt expiresAt then (c, [])
        else
          let es = (if int (length (c_entries c)) \<ge> c_maxEntries c
                    then evict_one pick (c_entries c) else c_entries c);
              c' = c\<lparr>c_entries := AList.update key \<lparr>e_data = data, e_expiresAt = expiresAt\<rparr> es\<rparr>
          in (c', gauge_update c'))"

section \<open>Invariant\<close>

definition cache_inv :: "cache \<Rightarrow> bool" where
  "cache_inv c \<longleftrightarrow>
     alist_ok (c_entries c) \<and> int (length (c_entries c)) \<le> max 0 (c_maxEntries c) \<and>
     (if c_enabled c then True else c_entries c = [])"

definition same_config :: "cache \<Rightarrow> cache \<Rightarrow> bool" where
  "same_config c c' \<longleftrightarrow>
     c_ttl c' = c_ttl c \<and> c_maxEntries c' = c_maxEntries c \<and> c_enabled c' = c_enabled c \<and>
     c_entriesGauge c' = c_entriesGauge c"

abbreviation cached :: "cache \<Rightarrow> string \<Rightarrow> cacheEntry option" where
  "cached c k \<equiv> map_of (c_entries c) k"

lemma evict_one_ok [simp]: "alist_ok es \<Longrightarrow> alist_ok (evict_one pick es)"
  by (simp add: evict_one_def)

lemma map_of_delete_D: "map_of (AList.delete k es) k' = Some v \<Longrightarrow> map_of es k' = Some v"
  by (cases "k' = k") (auto simp: delete_conv')

lemma evict_one_sub: "map_of (evict_one pick es) k = Some e \<Longrightarrow> map_of es k = Some e"
  by (auto simp: evict_one_def dest: map_of_delete_D split: if_splits)

lemma length_evict_one:
  assumes "alist_ok es" and "es \<noteq> []"
  shows "length (evict_one pick es) = length es - 1"
proof -
  have "pick mod length es < length es" using assms(2) by simp
  then have "fst (es ! (pick mod length es)) \<in> keys es" by simp
  with assms show ?thesis by (simp add: evict_one_def length_delete_mem)
qed

lemma entry_expiry_eq:
  "entry_expiry ttl t nu = (if nu = 0 then t + ttl else min nu (t + ttl))"
  by (auto simp: entry_expiry_def Let_def IsZero_def Before_def Time_Add_def)

lemma getAt_upgrade_inv:
  assumes "cache_inv c" and "getAt_upgrade c k now = (r, c', ev)"
  shows "cache_inv c'" and "same_config c c'"
    and "cached c' k' = Some e \<Longrightarrow> cached c k' = Some e"
    and "cached c k' = Some e \<Longrightarrow> now < e_expiresAt e \<Longrightarrow> cached c' k' = Some e"
    and "r = (case cached c k of Some e \<Rightarrow> if now < e_expiresAt e then Some (e_data e) else None | None \<Rightarrow> None)"
    and "ev = (if c_entries c' = c_entries c then [] else gauge_update c')"
proof -
  have len: "length (AList.delete k es) \<le> length es" for es :: "(string \<times> cacheEntry) list"
    by (rule length_delete_le)
  have sub: "map_of (AList.delete k es) k' = Some v \<Longrightarrow> map_of es k' = Some v" for es v
    by (rule map_of_delete_D)
  have ne: "AList.delete k es \<noteq> es" if "map_of es k = Some v" for es :: "(string \<times> cacheEntry) list" and v
    using that by (metis map_of_delete_same option.distinct(1))
  note d = getAt_upgrade_def Before_def Let_def
  show "cache_inv c'" using assms len [of "c_entries c"]
    by (auto simp: d cache_inv_def split: option.splits if_splits)
  show "same_config c c'" using assms by (auto simp: d same_config_def split: option.splits if_splits)
  show "cached c' k' = Some e \<Longrightarrow> cached c k' = Some e"
    using assms sub by (auto simp: d split: option.splits if_splits)
  show "cached c k' = Some e \<Longrightarrow> now < e_expiresAt e \<Longrightarrow> cached c' k' = Some e"
    using assms by (auto simp: d delete_conv' split: option.splits if_splits)
  show "r = (case cached c k of Some e \<Rightarrow> if now < e_expiresAt e then Some (e_data e) else None | None \<Rightarrow> None)"
    using assms by (auto simp: d split: option.splits if_splits)
  show "ev = (if c_entries c' = c_entries c then [] else gauge_update c')"
    using assms ne by (auto simp: d split: option.splits if_splits)
qed

lemma getAt_eq:
  assumes "cache_inv c"
  shows "getAt c k now = getAt_upgrade c k now"
  using assms
  by (auto simp: getAt_def getAt_read_def getAt_upgrade_def cache_inv_def split: option.splits if_splits)

lemma setAt_inv:
  assumes inv: "cache_inv c" and eq: "setAt pick c k d t nu = (c', ev)"
  shows "cache_inv c'" and "same_config c c'"
    and "cached c' k' = Some e \<Longrightarrow> cached c k' = Some e \<or>
           k' = k \<and> e = \<lparr>e_data = d, e_expiresAt = entry_expiry (c_ttl c) t nu\<rparr> \<and> t < e_expiresAt e"
    and "ev = (if c_enabled c \<and> 0 < c_maxEntries c \<and> t < entry_expiry (c_ttl c) t nu then gauge_update c' else [])"
proof -
  let ?x = "entry_expiry (c_ttl c) t nu"
  let ?es = "if int (length (c_entries c)) \<ge> c_maxEntries c then evict_one pick (c_entries c) else c_entries c"
  have st: "setAt pick c k d t nu =
      (if c_enabled c \<and> 0 < c_maxEntries c \<and> t < ?x
       then (let c' = c\<lparr>c_entries := AList.update k \<lparr>e_data = d, e_expiresAt = ?x\<rparr> ?es\<rparr> in (c', gauge_update c'))
       else (c, []))"
    by (simp add: setAt_def Let_def Before_def)
  have ok: "alist_ok ?es" using inv by (simp add: cache_inv_def)
  have len: "int (length ?es) < c_maxEntries c" if "0 < c_maxEntries c"
  proof (cases "int (length (c_entries c)) \<ge> c_maxEntries c")
    case True
    then have "c_entries c \<noteq> []" using that by auto
    with True inv that show ?thesis by (auto simp: cache_inv_def length_evict_one)
  qed (use that in simp)
  have sub: "map_of ?es k' = Some e \<Longrightarrow> cached c k' = Some e" for e
    by (auto dest: evict_one_sub split: if_splits)
  show "cache_inv c'" using inv eq ok len unfolding st
    by (auto simp: cache_inv_def length_update Let_def split: if_splits)
  show "same_config c c'" using eq unfolding st by (auto simp: same_config_def Let_def split: if_splits)
  show "cached c' k' = Some e \<Longrightarrow> cached c k' = Some e \<or>
           k' = k \<and> e = \<lparr>e_data = d, e_expiresAt = ?x\<rparr> \<and> t < e_expiresAt e"
    using eq sub [of e] unfolding st by (cases "k' = k") (auto simp: Let_def simp del: if_split split: if_splits)
  show "ev = (if c_enabled c \<and> 0 < c_maxEntries c \<and> t < ?x then gauge_update c' else [])"
    using eq unfolding st by (auto simp: Let_def split: if_splits)
qed

lemma setAt_stores:
  assumes "setAt pick c k d t nu = (c', ev)" and "c_enabled c" and "0 < c_maxEntries c"
    and "t < entry_expiry (c_ttl c) t nu"
  shows "cached c' k = Some \<lparr>e_data = d, e_expiresAt = entry_expiry (c_ttl c) t nu\<rparr>"
  using assms by (auto simp: setAt_def Before_def Let_def)

section \<open>The contract\<close>

definition rc_entry :: "cache \<Rightarrow> string \<Rightarrow> (bytes \<times> Time) option" where
  "rc_entry c k = map_option (\<lambda>e. (e_data e, e_expiresAt e)) (cached c k)"

definition rc_lookup :: "Time \<Rightarrow> string \<Rightarrow> cache \<Rightarrow> bytes option \<times> cache" where
  "rc_lookup now k c = (case getAt c k now of (r, c', _) \<Rightarrow> (r, c'))"

definition rc_store :: "nat \<times> Time \<Rightarrow> Time \<Rightarrow> string \<Rightarrow> bytes \<Rightarrow> cache \<Rightarrow> cache" where
  "rc_store a t k d c = fst (setAt (fst a) c k d t (snd a))"

definition rc_bound :: "Duration \<Rightarrow> nat \<times> Time \<Rightarrow> Time \<Rightarrow> Time" where
  "rc_bound ttl a t = entry_expiry ttl t (snd a)"

definition rc_inv :: "Duration \<Rightarrow> cache \<Rightarrow> bool" where
  "rc_inv ttl c \<longleftrightarrow> cache_inv c \<and> c_ttl c = ttl"

lemma rc_entry_Some: "rc_entry c k = Some (d, x) \<longleftrightarrow> cached c k = Some \<lparr>e_data = d, e_expiresAt = x\<rparr>"
  by (auto simp: rc_entry_def)

lemma getAt_inv:
  assumes "cache_inv c" and "getAt c k now = (r, c', ev)"
  shows "cache_inv c'" and "same_config c c'"
    and "cached c' k' = Some e \<Longrightarrow> cached c k' = Some e"
    and "cached c k' = Some e \<Longrightarrow> now < e_expiresAt e \<Longrightarrow> cached c' k' = Some e"
    and "r = (case cached c k of Some e \<Rightarrow> if now < e_expiresAt e then Some (e_data e) else None | None \<Rightarrow> None)"
    and "ev = (if c_entries c' = c_entries c then [] else gauge_update c')"
  using getAt_upgrade_inv [OF assms(1) assms(2) [unfolded getAt_eq [OF assms(1)]]] by blast+

interpretation response_cache: ttl_cache rc_entry rc_lookup rc_store "rc_bound ttl" "rc_inv ttl" for ttl
proof
  fix c :: cache and now t :: Time and k k' :: string and v w :: bytes and x :: Time and a :: "nat \<times> Time" and e
  assume inv: "rc_inv ttl c"
  obtain r c' ev where g: "getAt c k now = (r, c', ev)" by (metis prod_cases3)
  from inv have ci: "cache_inv c" and ttl: "c_ttl c = ttl" by (simp_all add: rc_inv_def)
  note gi = getAt_inv [OF ci g]
  show "rc_inv ttl (snd (rc_lookup now k c))"
    using gi(1,2) ttl by (simp add: rc_lookup_def g rc_inv_def same_config_def)
  show "fst (rc_lookup now k c) = Some v \<longleftrightarrow> (\<exists>x. rc_entry c k = Some (v, x) \<and> now < x)"
    using gi(5) by (auto simp: rc_lookup_def g rc_entry_def split: option.splits if_splits)
  show "rc_entry (snd (rc_lookup now k c)) k' = Some e \<Longrightarrow> rc_entry c k' = Some e"
    using gi(3) by (auto simp: rc_lookup_def g rc_entry_def)
  show "rc_entry c k' = Some (v, x) \<Longrightarrow> now < x \<Longrightarrow> rc_entry (snd (rc_lookup now k c)) k' = Some (v, x)"
    using gi(4) by (auto simp: rc_lookup_def g rc_entry_def)
  obtain c2 ev2 where s: "setAt (fst a) c k v t (snd a) = (c2, ev2)" by (metis prod.exhaust)
  note si = setAt_inv [OF ci s]
  show "rc_inv ttl (rc_store a t k v c)"
    using si(1,2) ttl by (simp add: rc_store_def s rc_inv_def same_config_def)
  show "rc_entry (rc_store a t k v c) k' = Some (w, x) \<Longrightarrow>
      rc_entry c k' = Some (w, x) \<or> k' = k \<and> w = v \<and> t < x \<and> x \<le> rc_bound ttl a t"
    using si(3) ttl by (fastforce simp: rc_store_def s rc_entry_Some rc_bound_def)
qed

end
