(* ===== verification/Signer.thy ===== *)
theory Signer
  imports SourceTypes
begin

text \<open>
  \<open>internal/signer/signer.go\<close>: loading and validating the delegated signing certificate, building the
  signed response, and watching the certificate's expiry.  File reads, PEM, X.509 and key parsing are
  the record \<open>signer_lib\<close>; \<open>golang.org/x/crypto/ocsp.CreateResponse\<close>, which signs the template, is the
  parameter \<open>xocsp\<close> of the operations that call it.
\<close>

unbundle bit_operations_syntax

section \<open>Keys and libraries\<close>

datatype PrivateKey =
    RSAPrivateKey int int       \<comment> \<open>N, E\<close>
  | ECDSAPrivateKey int int     \<comment> \<open>X, Y\<close>
  | Ed25519PrivateKey
  | ECDHPrivateKey

text \<open>The key types that implement \<open>crypto.Signer\<close>.\<close>

fun is_crypto_Signer :: "PrivateKey \<Rightarrow> bool" where
  "is_crypto_Signer ECDHPrivateKey = False"
| "is_crypto_Signer _ = True"

record signer_lib =
  sl_ReadFile :: "string \<Rightarrow> bytes option"
  sl_pem_Decode :: "bytes \<Rightarrow> bytes option"
  sl_ParseCertificate :: "bytes \<Rightarrow> Certificate option"
  sl_ParsePKCS8PrivateKey :: "bytes \<Rightarrow> PrivateKey option"
  sl_ParsePKCS1PrivateKey :: "bytes \<Rightarrow> (int \<times> int) option"
  sl_CheckSignatureFrom :: "Certificate \<Rightarrow> Certificate \<Rightarrow> bool"

datatype signer_error =
    SignerFileUnreadable
  | SignerCertUnparsable
  | SignerKeyUnparsable
  | KeyNotASigner
  | MissingOCSPSigning
  | KeyTypeMismatch
  | KeyMismatch
  | UnsupportedPublicKey
  | TrustCertsRequired
  | IssuerNotCA
  | IssuerCannotSign
  | NotSignedByIssuer
  | UnsupportedStatus Status
  | CreateResponseFailed

datatype signer_log =
    WarnExpiresSoonAt Time
  | WarnExpiresSoon int
  | ErrorExpiresVerySoon int
  | ErrorExpired

section \<open>State\<close>

datatype ExpiryStatus = ExpiryOK | ExpiryWarning | ExpiryCritical | ExpiryExpired | ExpiryOther int

record Signer =
  sg_cert :: Certificate
  sg_key :: PrivateKey
  sg_issuerCert :: Certificate
  sg_validity :: Duration

section \<open>Loading and validation\<close>

definition ExtKeyUsageOCSPSigning :: int where
  "ExtKeyUsageOCSPSigning = 9"

definition KeyUsageCertSign :: "64 word" where
  "KeyUsageCertSign = 32"

definition loadCert :: "signer_lib \<Rightarrow> string \<Rightarrow> signer_error + Certificate" where
  "loadCert x path =
     (case sl_ReadFile x path of
        None \<Rightarrow> Inl SignerFileUnreadable
      | Some b \<Rightarrow>
          (case sl_ParseCertificate x (case sl_pem_Decode x b of Some blk \<Rightarrow> blk | None \<Rightarrow> b) of
             None \<Rightarrow> Inl SignerCertUnparsable
           | Some cert \<Rightarrow> Inr cert))"

definition loadKey :: "signer_lib \<Rightarrow> string \<Rightarrow> signer_error + PrivateKey" where
  "loadKey x path =
     (case sl_ReadFile x path of
        None \<Rightarrow> Inl SignerFileUnreadable
      | Some b0 \<Rightarrow>
          (let b = (case sl_pem_Decode x b0 of Some blk \<Rightarrow> blk | None \<Rightarrow> b0) in
           case sl_ParsePKCS8PrivateKey x b of
             None \<Rightarrow>
               (case sl_ParsePKCS1PrivateKey x b of
                  Some (n, e) \<Rightarrow> Inr (RSAPrivateKey n e)
                | None \<Rightarrow> Inl SignerKeyUnparsable)
           | Some key \<Rightarrow> if is_crypto_Signer key then Inr key else Inl KeyNotASigner))"

fun verifyKeyMatches :: "Certificate \<Rightarrow> PrivateKey \<Rightarrow> signer_error option" where
  "verifyKeyMatches cert key =
     (case cert_PublicKey cert of
        RSAPublicKey n e \<Rightarrow>
          (case key of
             RSAPrivateKey n' e' \<Rightarrow> if n \<noteq> n' \<or> e \<noteq> e' then Some KeyMismatch else None
           | _ \<Rightarrow> Some KeyTypeMismatch)
      | ECDSAPublicKey px py \<Rightarrow>
          (case key of
             ECDSAPrivateKey kx ky \<Rightarrow> if px \<noteq> kx \<or> py \<noteq> ky then Some KeyMismatch else None
           | _ \<Rightarrow> Some KeyTypeMismatch)
      | OtherPublicKey \<Rightarrow> Some UnsupportedPublicKey)"

definition verifySignerTrust ::
  "signer_lib \<Rightarrow> Certificate option \<Rightarrow> Certificate option \<Rightarrow> signer_error option" where
  "verifySignerTrust x cert issuer =
     (case (cert, issuer) of
        (Some c, Some i) \<Rightarrow>
          if \<not> IsCA i then Some IssuerNotCA
          else if KeyUsage i AND KeyUsageCertSign = 0 then Some IssuerCannotSign
          else if \<not> sl_CheckSignatureFrom x c i then Some NotSignedByIssuer
          else None
      | _ \<Rightarrow> Some TrustCertsRequired)"

definition NewSigner ::
  "signer_lib \<Rightarrow> Time \<Rightarrow> string \<Rightarrow> string \<Rightarrow> string \<Rightarrow> Duration \<Rightarrow> signer_error + Signer \<times> signer_log list" where
  "NewSigner x now certFile keyFile issuerCertFile validity =
     (case loadCert x certFile of
        Inl err \<Rightarrow> Inl err
      | Inr cert \<Rightarrow>
        (case loadKey x keyFile of
           Inl err \<Rightarrow> Inl err
         | Inr key \<Rightarrow>
           (case loadCert x issuerCertFile of
              Inl err \<Rightarrow> Inl err
            | Inr issuer \<Rightarrow>
                if \<not> list_ex (\<lambda>eku. eku = ExtKeyUsageOCSPSigning) (ExtKeyUsage cert)
                then Inl MissingOCSPSigning
                else (case verifyKeyMatches cert key of
                        Some err \<Rightarrow> Inl err
                      | None \<Rightarrow>
                        (case verifySignerTrust x (Some cert) (Some issuer) of
                           Some err \<Rightarrow> Inl err
                         | None \<Rightarrow>
                             Inr (\<lparr>sg_cert = cert, sg_key = key, sg_issuerCert = issuer,
                                   sg_validity = validity\<rparr>,
                                  if Time_Sub (NotAfter cert) now < 30 * 24 * Hour
                                  then [WarnExpiresSoonAt (NotAfter cert)] else []))))))"

section \<open>Signing\<close>

definition xocsp_Good :: int where "xocsp_Good = 0"
definition xocsp_Revoked :: int where "xocsp_Revoked = 1"
definition xocsp_Unknown :: int where "xocsp_Unknown = 2"
definition crypto_SHA1 :: nat where "crypto_SHA1 = 3"

record OCSPTemplate =
  t_Status :: int
  t_SerialNumber :: int
  t_ThisUpdate :: Time
  t_NextUpdate :: Time
  t_IssuerHash :: nat
  t_Certificate :: Certificate
  t_RevokedAt :: Time
  t_RevocationReason :: int

type_synonym xocsp_CreateResponse =
  "Certificate \<Rightarrow> Certificate \<Rightarrow> OCSPTemplate \<Rightarrow> PrivateKey \<Rightarrow> bytes option"

text \<open>The NextUpdate of a response: capped by the source's, at whole seconds.\<close>

definition response_nextUpdate :: "Duration \<Rightarrow> Time \<Rightarrow> Time \<Rightarrow> Time" where
  "response_nextUpdate validity thisUpdate sourceNextUpdate =
     (let nu = Time_Add thisUpdate validity;
          nu = (if \<not> IsZero sourceNextUpdate \<and> Before sourceNextUpdate nu then sourceNextUpdate else nu)
      in Time_Truncate nu Second)"

definition Signer_CreateResponse ::
  "xocsp_CreateResponse \<Rightarrow> Signer \<Rightarrow> int \<Rightarrow> Status \<Rightarrow> RevocationInfo option \<Rightarrow> Time \<Rightarrow> Time
     \<Rightarrow> signer_error + bytes \<times> Time" where
  "Signer_CreateResponse xocsp s serial status revInfo thisUpdate sourceNextUpdate =
     (case (case status of
              StatusGood \<Rightarrow> Some (xocsp_Good, 0, 0)
            | StatusRevoked \<Rightarrow>
                (case revInfo of
                   Some ri \<Rightarrow> Some (xocsp_Revoked, RevokedAt ri, Reason ri)
                 | None \<Rightarrow> Some (xocsp_Revoked, 0, 0))
            | StatusUnknown \<Rightarrow> Some (xocsp_Unknown, 0, 0)
            | StatusOther _ \<Rightarrow> None) of
        None \<Rightarrow> Inl (UnsupportedStatus status)
      | Some (ocspStatus, revokedAt, reason) \<Rightarrow>
          (let nextUpdate = response_nextUpdate (sg_validity s) thisUpdate sourceNextUpdate;
               template = \<lparr>t_Status = ocspStatus, t_SerialNumber = serial, t_ThisUpdate = thisUpdate,
                           t_NextUpdate = nextUpdate, t_IssuerHash = crypto_SHA1,
                           t_Certificate = sg_cert s, t_RevokedAt = revokedAt,
                           t_RevocationReason = reason\<rparr>
           in case xocsp (sg_issuerCert s) (sg_cert s) template (sg_key s) of
                None \<Rightarrow> Inl CreateResponseFailed
              | Some der \<Rightarrow> Inr (der, nextUpdate)))"

definition Signer_IssuerCert :: "Signer \<Rightarrow> Certificate" where
  "Signer_IssuerCert s = sg_issuerCert s"

section \<open>Expiry\<close>

definition Signer_Valid :: "Time \<Rightarrow> Signer \<Rightarrow> bool" where
  "Signer_Valid now s \<longleftrightarrow> After now (NotBefore (sg_cert s)) \<and> Before now (NotAfter (sg_cert s))"

definition DaysUntilExpiry :: "Time \<Rightarrow> Signer \<Rightarrow> int" where
  "DaysUntilExpiry now s = \<lfloor>f64 (Duration_Hours (Time_Sub (NotAfter (sg_cert s)) now) / 24)\<rfloor>"

definition GetExpiryStatus :: "Time \<Rightarrow> Signer \<Rightarrow> ExpiryStatus" where
  "GetExpiryStatus now s =
     (let days = DaysUntilExpiry now s in
      if days < 0 then ExpiryExpired
      else if days < 8 then ExpiryCritical
      else if days < 30 then ExpiryWarning
      else ExpiryOK)"

fun ExpiryStatusString :: "ExpiryStatus \<Rightarrow> string" where
  "ExpiryStatusString ExpiryOK = ''ok''"
| "ExpiryStatusString ExpiryWarning = ''warning''"
| "ExpiryStatusString ExpiryCritical = ''critical''"
| "ExpiryStatusString ExpiryExpired = ''expired''"
| "ExpiryStatusString (ExpiryOther _) = ''unknown''"

text \<open>
  The monitor goroutine: the gauge is set at once and at every tick (when there is a gauge), and a
  tick logs by severity.  A tick carries its two clock readings; cancelling ends the list.
\<close>

datatype monitor_event = GaugeSet int | MonitorLog signer_log

definition monitor_tick :: "bool \<Rightarrow> Signer \<Rightarrow> Time \<Rightarrow> Time \<Rightarrow> monitor_event list" where
  "monitor_tick hasGauge s t1 t2 =
     (let days = DaysUntilExpiry t1 s in
      (if hasGauge then [GaugeSet days] else []) @
      (case GetExpiryStatus t2 s of
         ExpiryWarning \<Rightarrow> [MonitorLog (WarnExpiresSoon days)]
       | ExpiryCritical \<Rightarrow> [MonitorLog (ErrorExpiresVerySoon days)]
       | ExpiryExpired \<Rightarrow> [MonitorLog ErrorExpired]
       | _ \<Rightarrow> []))"

definition StartExpiryMonitor :: "bool \<Rightarrow> Signer \<Rightarrow> Time \<Rightarrow> (Time \<times> Time) list \<Rightarrow> monitor_event list" where
  "StartExpiryMonitor hasGauge s t0 ticks =
     (if hasGauge then [GaugeSet (DaysUntilExpiry t0 s)] else []) @
     concat (map (\<lambda>(t1, t2). monitor_tick hasGauge s t1 t2) ticks)"

section \<open>What a loaded signer guarantees\<close>

text \<open>
  Independent of how \<open>verifyKeyMatches\<close> compares keys: the public half of a private key, and the
  conditions under which a delegated OCSP signer is authorised (RFC 6960, 4.2.2.2).
\<close>

fun public_half :: "PrivateKey \<Rightarrow> PublicKey option" where
  "public_half (RSAPrivateKey n e) = Some (RSAPublicKey n e)"
| "public_half (ECDSAPrivateKey a b) = Some (ECDSAPublicKey a b)"
| "public_half _ = None"

definition authorised :: "signer_lib \<Rightarrow> Signer \<Rightarrow> bool" where
  "authorised x s \<longleftrightarrow>
     ExtKeyUsageOCSPSigning \<in> set (ExtKeyUsage (sg_cert s)) \<and>
     public_half (sg_key s) = Some (cert_PublicKey (sg_cert s)) \<and>
     IsCA (sg_issuerCert s) \<and> bit (KeyUsage (sg_issuerCert s)) 5 \<and>
     sl_CheckSignatureFrom x (sg_cert s) (sg_issuerCert s)"

lemma certSign_bit: "u AND KeyUsageCertSign = 0 \<longleftrightarrow> \<not> bit u 5"
  using and_exp_eq_0_iff_not_bit [of u 5] by (simp add: KeyUsageCertSign_def)

lemma verifyKeyMatches_iff:
  "verifyKeyMatches cert key = None \<longleftrightarrow> public_half key = Some (cert_PublicKey cert)"
  by (cases key) (auto split: PublicKey.splits)

lemma verifySignerTrust_iff:
  "verifySignerTrust x (Some cert) (Some issuer) = None \<longleftrightarrow>
     IsCA issuer \<and> bit (KeyUsage issuer) 5 \<and> sl_CheckSignatureFrom x cert issuer"
  by (simp add: verifySignerTrust_def certSign_bit)

section \<open>What a signed response carries\<close>

fun ocsp_code :: "Status \<Rightarrow> int option" where
  "ocsp_code StatusGood = Some xocsp_Good"
| "ocsp_code StatusRevoked = Some xocsp_Revoked"
| "ocsp_code StatusUnknown = Some xocsp_Unknown"
| "ocsp_code (StatusOther _) = None"

definition revocation_fields :: "Status \<Rightarrow> RevocationInfo option \<Rightarrow> Time \<times> int" where
  "revocation_fields st ri =
     (case (st, ri) of (StatusRevoked, Some i) \<Rightarrow> (RevokedAt i, Reason i) | _ \<Rightarrow> (0, 0))"

text \<open>
  \<open>asserts\<close>: the bytes are what the library signed, with this signer's key and certificate, for a
  template that names the serial, the status, the revocation details and the two instants.
\<close>

definition response_template ::
  "Signer \<Rightarrow> int \<Rightarrow> int \<Rightarrow> Time \<times> int \<Rightarrow> Time \<Rightarrow> Time \<Rightarrow> OCSPTemplate" where
  "response_template s n code rv t nu =
     \<lparr>t_Status = code, t_SerialNumber = n, t_ThisUpdate = t, t_NextUpdate = nu,
      t_IssuerHash = crypto_SHA1, t_Certificate = sg_cert s, t_RevokedAt = fst rv,
      t_RevocationReason = snd rv\<rparr>"

definition signed_for ::
  "xocsp_CreateResponse \<Rightarrow> Signer \<Rightarrow> bytes \<Rightarrow> int \<Rightarrow> Status \<Rightarrow> RevocationInfo option \<Rightarrow> Time \<Rightarrow> Time \<Rightarrow> bool" where
  "signed_for xocsp s der n st ri t nu \<longleftrightarrow>
     (case ocsp_code st of
        None \<Rightarrow> False
      | Some code \<Rightarrow>
          xocsp (sg_issuerCert s) (sg_cert s)
            (response_template s n code (revocation_fields st ri) t nu) (sg_key s) = Some der)"

text \<open>The deadline before it is cut to whole seconds.\<close>

definition deadline :: "Duration \<Rightarrow> Time \<Rightarrow> Time \<Rightarrow> Time" where
  "deadline validity t su = (if su = 0 then t + validity else min su (t + validity))"

lemma response_nextUpdate_eq:
  "response_nextUpdate validity t su = Time_Truncate (deadline validity t su) Second"
  by (auto simp: response_nextUpdate_def deadline_def Let_def IsZero_def Before_def Time_Add_def)

lemma CreateResponse_eq:
  "Signer_CreateResponse xocsp s n st ri t su =
     (case ocsp_code st of
        None \<Rightarrow> Inl (UnsupportedStatus st)
      | Some code \<Rightarrow>
          (let nu = response_nextUpdate (sg_validity s) t su in
           case xocsp (sg_issuerCert s) (sg_cert s)
                  (response_template s n code (revocation_fields st ri) t nu) (sg_key s) of
             None \<Rightarrow> Inl CreateResponseFailed
           | Some der \<Rightarrow> Inr (der, nu)))"
  by (cases st) (auto simp: Signer_CreateResponse_def response_template_def revocation_fields_def
      Let_def split: option.splits)

lemma CreateResponse_Inr:
  "Signer_CreateResponse xocsp s n st ri t su = Inr (der, nu) \<longleftrightarrow>
     nu = Time_Truncate (deadline (sg_validity s) t su) Second \<and> signed_for xocsp s der n st ri t nu"
  by (auto simp: CreateResponse_eq signed_for_def response_nextUpdate_eq Let_def split: option.splits)

text \<open>
  What the responder relies on in a signer: the bytes assert exactly what was asked, until the
  returned instant, which never lies beyond the source's.
\<close>

locale response_signer =
  fixes create :: "'g \<Rightarrow> int \<Rightarrow> Status \<Rightarrow> RevocationInfo option \<Rightarrow> Time \<Rightarrow> Time \<Rightarrow> 'err + bytes \<times> Time"
    and asserts :: "'g \<Rightarrow> bytes \<Rightarrow> int \<Rightarrow> Status \<Rightarrow> RevocationInfo option \<Rightarrow> Time \<Rightarrow> Time \<Rightarrow> bool"
  assumes create_asserts: "create g n st ri t su = Inr (der, nu) \<Longrightarrow> asserts g der n st ri t nu"
    and create_capped: "create g n st ri t su = Inr (der, nu) \<Longrightarrow> su \<noteq> 0 \<Longrightarrow> nu \<le> su"
    and create_named: "create g n (StatusOther k) ri t su \<noteq> Inr r"

interpretation delegated: response_signer "Signer_CreateResponse xocsp" "signed_for xocsp" for xocsp
proof unfold_locales
  show "Signer_CreateResponse xocsp g n st ri t su = Inr (der, nu) \<Longrightarrow> su \<noteq> 0 \<Longrightarrow> nu \<le> su"
    for g n st ri t su der nu
    using Time_Truncate_le [of "deadline (sg_validity g) t su" Second]
    by (auto simp: CreateResponse_Inr deadline_def)
  show "Signer_CreateResponse xocsp g n (StatusOther k) ri t su \<noteq> Inr r" for g n k ri t su r
    by (simp add: CreateResponse_eq)
qed (simp add: CreateResponse_Inr)

section \<open>Expiry\<close>

text \<open>Severity orders the expiry statuses; unnamed integers keep their place between the named ones.\<close>

fun severity :: "ExpiryStatus \<Rightarrow> int" where
  "severity ExpiryOK = 0"
| "severity ExpiryWarning = 2"
| "severity ExpiryCritical = 4"
| "severity ExpiryExpired = 6"
| "severity (ExpiryOther n) = 2 * n + 1"

lemma severity_inject: "severity a = severity b \<Longrightarrow> a = b"
  by (cases a; cases b) (simp; presburger)+

instantiation ExpiryStatus :: linorder
begin

definition less_eq_ExpiryStatus :: "ExpiryStatus \<Rightarrow> ExpiryStatus \<Rightarrow> bool" where
  "a \<le> b \<longleftrightarrow> severity a \<le> severity b"

definition less_ExpiryStatus :: "ExpiryStatus \<Rightarrow> ExpiryStatus \<Rightarrow> bool" where
  "a < b \<longleftrightarrow> severity a < severity b"

instance
  by standard (auto simp: less_eq_ExpiryStatus_def less_ExpiryStatus_def intro: severity_inject)

end

text \<open>The time left on the certificate, saturated as \<open>time.Until\<close> does.\<close>

abbreviation remaining :: "Time \<Rightarrow> Signer \<Rightarrow> Duration" where
  "remaining now s \<equiv> Time_Sub (NotAfter (sg_cert s)) now"

lemma DaysUntilExpiry_eq: "DaysUntilExpiry now s = \<lfloor>f64 (f64.hours (remaining now s) / 24)\<rfloor>"
  by (simp add: DaysUntilExpiry_def Duration_Hours_eq)

lemma DaysUntilExpiry_antimono: "t \<le> t' \<Longrightarrow> DaysUntilExpiry t' s \<le> DaysUntilExpiry t s"
  by (simp add: DaysUntilExpiry_eq f64.floor_days_mono Time_Sub_mono)

lemma GetExpiryStatus_threshold:
  "ExpiryExpired \<le> GetExpiryStatus now s \<longleftrightarrow> DaysUntilExpiry now s < 0"
  "ExpiryCritical \<le> GetExpiryStatus now s \<longleftrightarrow> DaysUntilExpiry now s < 8"
  "ExpiryWarning \<le> GetExpiryStatus now s \<longleftrightarrow> DaysUntilExpiry now s < 30"
  by (auto simp: GetExpiryStatus_def less_eq_ExpiryStatus_def Let_def)

fun gauge_values :: "monitor_event list \<Rightarrow> int list" where
  "gauge_values [] = []"
| "gauge_values (GaugeSet d # es) = d # gauge_values es"
| "gauge_values (MonitorLog l # es) = gauge_values es"

lemma gauge_values_append [simp]: "gauge_values (xs @ ys) = gauge_values xs @ gauge_values ys"
  by (induction xs rule: gauge_values.induct) auto

lemma gauge_values_monitor_tick:
  "gauge_values (monitor_tick hasGauge s t1 t2) = (if hasGauge then [DaysUntilExpiry t1 s] else [])"
  by (simp add: monitor_tick_def Let_def split: ExpiryStatus.splits)

lemma gauge_values_StartExpiryMonitor:
  "gauge_values (StartExpiryMonitor True s t0 ticks) = map (\<lambda>t. DaysUntilExpiry t s) (t0 # map fst ticks)"
proof -
  have "gauge_values (concat (map (\<lambda>(t1, t2). monitor_tick True s t1 t2) ticks))
          = map (\<lambda>t. DaysUntilExpiry t s) (map fst ticks)"
    by (induction ticks) (auto simp: gauge_values_monitor_tick)
  then show ?thesis by (simp add: StartExpiryMonitor_def)
qed

text \<open>
  The three thresholds are met to the nanosecond: rounding is monotone, and just below a threshold
  it does not reach the next whole day.
\<close>

lemma days_below_threshold:
  "\<lfloor>f64 (f64.hours (- 1) / 24)\<rfloor> = - 1"
  "\<lfloor>f64 (f64.hours (8 * Day - 1) / 24)\<rfloor> = 7"
  "\<lfloor>f64 (f64.hours (30 * Day - 1) / 24)\<rfloor> = 29"
  by (simp_all add: f64.hours_def) code_simp+

lemma days_less_iff:
  assumes "\<lfloor>f64 (f64.hours (k * Day - 1) / 24)\<rfloor> = k - 1" and "in_int64 (k * Day)" and "in_int64 d"
  shows "\<lfloor>f64 (f64.hours d / 24)\<rfloor> < k \<longleftrightarrow> d < k * Day"
proof (cases "d < k * Day")
  case True
  then have "d \<le> k * Day - 1" by simp
  from f64.floor_days_mono [OF this] assms(1) True show ?thesis by simp
next
  case False
  then have "k \<le> d div Day" using zdiv_mono1 [of "k * Day" d Day] by simp
  with f64.floor_days_bounds(1) [OF assms(3)] False show ?thesis by simp
qed

lemma DaysUntilExpiry_threshold:
  "DaysUntilExpiry now s < 0 \<longleftrightarrow> remaining now s < 0"
  "DaysUntilExpiry now s < 8 \<longleftrightarrow> remaining now s < 8 * Day"
  "DaysUntilExpiry now s < 30 \<longleftrightarrow> remaining now s < 30 * Day"
  unfolding DaysUntilExpiry_eq
  using days_less_iff [of 0] days_less_iff [of 8] days_less_iff [of 30]
    days_below_threshold Time_Sub_int64 [of "NotAfter (sg_cert s)" now]
  by (simp_all add: in_int64_def)

lemma NewSigner_Inr:
  "NewSigner x now certFile keyFile issuerFile validity = Inr (s, logs) \<longleftrightarrow>
     loadCert x certFile = Inr (sg_cert s) \<and> loadKey x keyFile = Inr (sg_key s) \<and>
     loadCert x issuerFile = Inr (sg_issuerCert s) \<and> sg_validity s = validity \<and> authorised x s \<and>
     logs = (if remaining now s < 30 * Day then [WarnExpiresSoonAt (NotAfter (sg_cert s))] else [])"
proof -
  have eku: "list_ex (\<lambda>e. e = ExtKeyUsageOCSPSigning) l \<longleftrightarrow> ExtKeyUsageOCSPSigning \<in> set l" for l
    by (auto simp: list_ex_iff)
  show ?thesis
    unfolding NewSigner_def eku authorised_def verifyKeyMatches_iff [symmetric]
      verifySignerTrust_iff [symmetric]
    by (cases s) (auto simp del: verifyKeyMatches.simps split: sum.splits option.splits)
qed

section \<open>Properties\<close>

text \<open>
  C14: \<open>NewSigner\<close> succeeds exactly when the three files load and the pair is authorised: the signing
  certificate carries the OCSP signing purpose, the private key is the one of the certificate, the
  issuer is a CA allowed to sign certificates, and it signed the signing certificate.  The signer
  then holds what was loaded, and the only log line is the warning for a certificate with less than
  30 days left.
\<close>
theorem NewSigner_iff_authorised:
  "NewSigner x now certFile keyFile issuerFile validity = Inr (s, logs) \<longleftrightarrow>
     loadCert x certFile = Inr (sg_cert s) \<and> loadKey x keyFile = Inr (sg_key s) \<and>
     loadCert x issuerFile = Inr (sg_issuerCert s) \<and> sg_validity s = validity \<and> authorised x s \<and>
     logs = (if remaining now s < 30 * Day then [WarnExpiresSoonAt (NotAfter (sg_cert s))] else [])"
  by (rule NewSigner_Inr)

text \<open>
  C13: a signed response never claims freshness beyond the data it was derived from: the signed
  NextUpdate is at most ThisUpdate plus the configured validity and at most the source's NextUpdate
  (when it has one), it is a whole second less than a second below that bound, and the returned bytes
  are the signature over exactly the requested serial, status, revocation details and instants.
\<close>
theorem response_window:
  assumes "Signer_CreateResponse xocsp s n st ri t su = Inr (der, nu)"
  shows "nu \<le> t + sg_validity s \<and> (su = 0 \<or> nu \<le> su) \<and> Second dvd nu \<and>
    deadline (sg_validity s) t su - Second < nu \<and> signed_for xocsp s der n st ri t nu"
proof -
  let ?d = "deadline (sg_validity s) t su"
  from assms have nu: "nu = Time_Truncate ?d Second" and sf: "signed_for xocsp s der n st ri t nu"
    by (auto simp: CreateResponse_Inr)
  have "nu \<le> ?d" unfolding nu by (rule Time_Truncate_le)
  moreover have "?d \<le> t + sg_validity s" "su = 0 \<or> ?d \<le> su" by (auto simp: deadline_def)
  moreover have "Second dvd nu" "?d - Second < nu"
    unfolding nu by (rule Time_Truncate_dvd Time_Truncate_gt; simp)+
  ultimately show ?thesis using sf by auto
qed

text \<open>
  C24: the expiry status is exact to the nanosecond, in spite of the floating-point division: expired
  iff no time is left, critical iff less than 8 days are left, warning iff less than 30, else ok; and
  it never improves as time passes.
\<close>
theorem expiry_status_exact:
  "mono (\<lambda>t. GetExpiryStatus t s) \<and>
   GetExpiryStatus now s =
     (if remaining now s < 0 then ExpiryExpired
      else if remaining now s < 8 * Day then ExpiryCritical
      else if remaining now s < 30 * Day then ExpiryWarning
      else ExpiryOK)"
proof
  show "mono (\<lambda>t. GetExpiryStatus t s)"
    by (rule monoI, drule DaysUntilExpiry_antimono [of _ _ s])
      (auto simp: GetExpiryStatus_def less_eq_ExpiryStatus_def Let_def)
qed (simp only: GetExpiryStatus_def Let_def DaysUntilExpiry_threshold)

text \<open>
  C25: over a run of the monitor whose clock readings do not go back, the exported gauge never grows,
  every value is at least the number of whole days left and at most one more, and equal to it
  whenever the certificate is at least a millisecond away from losing the current day.
\<close>
theorem monitor_gauge:
  assumes "sorted (t0 # map fst ticks)"
    and "\<forall>t \<in> set (t0 # map fst ticks). in_int64 (NotAfter (sg_cert s) - t)"
  shows "sorted (rev (gauge_values (StartExpiryMonitor True s t0 ticks))) \<and>
    list_all2 (\<lambda>t days. let left = NotAfter (sg_cert s) - t in
        left div Day \<le> days \<and> days \<le> left div Day + 1 \<and>
        (if left mod Day + Millisecond \<le> Day then days = left div Day else True))
      (t0 # map fst ticks) (gauge_values (StartExpiryMonitor True s t0 ticks))"
proof
  let ?ts = "t0 # map fst ticks"
  have "sorted (rev (map (\<lambda>t. DaysUntilExpiry t s) ts))" if "sorted ts" for ts
    using that by (induction ts) (auto simp: sorted_append intro: DaysUntilExpiry_antimono)
  from this [OF assms(1)] show "sorted (rev (gauge_values (StartExpiryMonitor True s t0 ticks)))"
    unfolding gauge_values_StartExpiryMonitor .
  show "list_all2 (\<lambda>t days. let left = NotAfter (sg_cert s) - t in
        left div Day \<le> days \<and> days \<le> left div Day + 1 \<and>
        (if left mod Day + Millisecond \<le> Day then days = left div Day else True))
      ?ts (gauge_values (StartExpiryMonitor True s t0 ticks))"
    unfolding gauge_values_StartExpiryMonitor list_all2_map2
    using assms(2) f64.floor_days_bounds f64.floor_days_exact
    by (auto simp only: list_all2_same DaysUntilExpiry_eq Let_def Time_Sub_exact split: if_splits)
qed

section \<open>Witnesses\<close>

definition ex_signer :: Signer where
  "ex_signer =
     \<lparr>sg_cert = \<lparr>RawSubject = [1], RawSubjectPublicKeyInfo = [2], cert_PublicKey = RSAPublicKey 35 3,
        IsCA = False, KeyUsage = 1, ExtKeyUsage = [9], NotBefore = 0, NotAfter = 20 * Day\<rparr>,
      sg_key = RSAPrivateKey 35 3,
      sg_issuerCert = \<lparr>RawSubject = [7], RawSubjectPublicKeyInfo = [8], cert_PublicKey = RSAPublicKey 77 3,
        IsCA = True, KeyUsage = 32, ExtKeyUsage = [], NotBefore = 0, NotAfter = 900 * Day\<rparr>,
      sg_validity = Hour\<rparr>"

definition ex_xocsp :: xocsp_CreateResponse where
  "ex_xocsp issuer cert tmpl key = Some [word_of_int (t_Status tmpl), word_of_int (t_SerialNumber tmpl)]"

theorem response_window_witness:
  "Signer_CreateResponse ex_xocsp ex_signer 5 StatusGood None (10 * Day + 7) (10 * Day + 90 * Second + 1)
     = Inr ([0, 5], 10 * Day + 90 * Second) \<and>
   signed_for ex_xocsp ex_signer [0, 5] 5 StatusGood None (10 * Day + 7) (10 * Day + 90 * Second)"
proof -
  have r: "Signer_CreateResponse ex_xocsp ex_signer 5 StatusGood None (10 * Day + 7) (10 * Day + 90 * Second + 1)
     = Inr ([0, 5], 10 * Day + 90 * Second)"
    by code_simp
  from response_window [OF r] r show ?thesis by blast
qed

theorem monitor_gauge_witness:
  "sorted (rev (gauge_values (StartExpiryMonitor True ex_signer Day [(2 * Day, 2 * Day + 1)])))"
  using monitor_gauge [of Day "[(2 * Day, 2 * Day + 1)]" ex_signer]
  by (simp add: ex_signer_def in_int64_def)

end
