(* ===== verification/StaticSource.thy ===== *)
theory StaticSource
  imports SourceTypes
begin

text \<open>\<open>internal/source/static.go\<close>: the source with a fixed answer.\<close>

record StaticSource =
  st_status :: Status

definition NewStaticSource :: "string \<Rightarrow> source_error + StaticSource" where
  "NewStaticSource statusStr =
     (if statusStr = ''good'' then Inr \<lparr>st_status = StatusGood\<rparr>
      else if statusStr = ''revoked'' then Inr \<lparr>st_status = StatusRevoked\<rparr>
      else if statusStr = ''unknown'' then Inr \<lparr>st_status = StatusUnknown\<rparr>
      else Inl (InvalidStaticStatus statusStr))"

definition StaticSource_GetStatus ::
  "call_env \<Rightarrow> int \<Rightarrow> Certificate option \<Rightarrow> StaticSource
     \<Rightarrow> (source_error + CertStatus option) \<times> StaticSource \<times> metric_call list" where
  "StaticSource_GetStatus e serial issuer s =
     (case ce_ctxErr e of
        Some c \<Rightarrow> (Inl (CtxErr c), s, [])
      | None \<Rightarrow>
          (Inr (Some \<lparr>cs_Status = st_status s,
                      cs_RevocationInfo =
                        (if st_status s = StatusRevoked
                         then Some \<lparr>RevokedAt = ce_now e, Reason = 0\<rparr> else None),
                      cs_SourceNextUpdate = 0\<rparr>), s, []))"

definition StaticSource_Name :: "StaticSource \<Rightarrow> string" where
  "StaticSource_Name s = ''static''"

definition StaticSource_Healthy :: "Time \<Rightarrow> StaticSource \<Rightarrow> bool" where
  "StaticSource_Healthy now s = True"

definition static_source :: "(call_env, StaticSource) Source" where
  "static_source = \<lparr>GetStatus = StaticSource_GetStatus, Name = StaticSource_Name,
                    Healthy = StaticSource_Healthy\<rparr>"

definition static_inv :: "StaticSource \<Rightarrow> bool" where
  "static_inv s \<longleftrightarrow> st_status s \<in> {StatusGood, StatusRevoked, StatusUnknown}"

lemma NewStaticSource_inv: "NewStaticSource str = Inr s \<Longrightarrow> static_inv s"
  by (auto simp: NewStaticSource_def static_inv_def split: if_splits)

interpretation static: status_source static_source static_inv ce_ctxErr
  "\<lambda>e s n. st_status s = StatusGood"
  "\<lambda>e s n i. st_status s = StatusRevoked \<and> i = \<lparr>RevokedAt = ce_now e, Reason = 0\<rparr>"
  by unfold_locales
    (auto simp: static_source_def StaticSource_GetStatus_def static_inv_def
         wf_CertStatus.simps
       split: option.splits if_splits Status.splits)

interpretation static: telemetry_source static_source
  by unfold_locales
    (auto simp: static_source_def StaticSource_GetStatus_def StaticSource_Name_def ascii_def split: option.splits)

end
