(* ===== verification/Responder.thy ===== *)
theory Responder
  imports ResponseCache Signer StaticSource
begin

text \<open>
  \<open>internal/responder/responder.go\<close>: the request path.  A request is parsed, bound to the issuer this
  responder signs for, answered from the cache or from the source, signed and cached.  The source and
  the signer are the program's two interfaces (records of operations); \<open>ocsp.ParseRequest\<close>, the hash
  functions and the ASN.1 decoding of the issuer's key are the record \<open>responder_lib\<close>.  The clock
  readings, the context's state, the source's environment and the eviction choice of one call are the
  record \<open>handle_env\<close>.
\<close>

section \<open>Types\<close>

record Request =
  HashAlgorithm :: nat
  IssuerNameHash :: bytes
  IssuerKeyHash :: bytes
  SerialNumber :: int

record responder_lib =
  rl_ParseRequest :: "bytes \<Rightarrow> Request option"
  rl_Available :: "nat \<Rightarrow> bool"
  rl_Sum :: "nat \<Rightarrow> bytes \<Rightarrow> bytes"
  rl_SubjectPublicKey :: "bytes \<Rightarrow> bytes option"

record 'g signer_ops =
  IssuerCert :: "'g \<Rightarrow> Certificate option"
  CreateResponse :: "'g \<Rightarrow> int \<Rightarrow> Status \<Rightarrow> RevocationInfo option \<Rightarrow> Time \<Rightarrow> Time
      \<Rightarrow> signer_error + bytes \<times> Time"

record ('e, 's, 'g) Responder =
  r_src_ops :: "('e, 's) Source"
  r_source :: 's
  r_sgn_ops :: "'g signer_ops"
  r_signer :: 'g
  r_cache :: cache
  r_metrics :: bool

record 'e handle_env =
  he_ctxErr :: "ctx_error option"
  he_start :: Time
  he_get_now :: Time
  he_src :: 'e
  he_sign_now :: Time
  he_set_now :: Time
  he_pick :: nat
  he_log_now :: Time

datatype binding_error =
    BindingContext
  | UnsupportedHash
  | NameHashMismatch
  | SPKIUnparsable
  | KeyHashMismatch

datatype responder_error =
    RespCtx ctx_error
  | RespParse
  | RespBinding binding_error
  | RespSign signer_error

record ocsp_log =
  l_serial :: string
  l_status :: string
  l_source :: string
  l_cache_hit :: bool
  l_duration_ms :: int

section \<open>Construction\<close>

definition NewResponder ::
  "('e, 's) Source \<Rightarrow> 's \<Rightarrow> 'g signer_ops \<Rightarrow> 'g \<Rightarrow> Duration \<Rightarrow> int \<Rightarrow> bool \<Rightarrow> bool \<Rightarrow> bool
     \<Rightarrow> ('e, 's, 'g) Responder" where
  "NewResponder sops src gops sg cacheTTL maxEntries cacheEnabled metrics cacheEntriesGauge =
     \<lparr>r_src_ops = sops, r_source = src, r_sgn_ops = gops, r_signer = sg,
      r_cache = \<lparr>c_entries = [], c_ttl = cacheTTL, c_maxEntries = maxEntries, c_enabled = cacheEnabled,
                 c_entriesGauge = cacheEntriesGauge\<rparr>,
      r_metrics = metrics\<rparr>"

section \<open>Issuer binding\<close>

text \<open>\<open>subtle.ConstantTimeByteEq\<close> and \<open>subtle.ConstantTimeCompare\<close>, as the library computes them.\<close>

definition ConstantTimeByteEq :: "byte \<Rightarrow> byte \<Rightarrow> int" where
  "ConstantTimeByteEq a b = uint (drop_bit 31 ((ucast (a XOR b) :: 32 word) - 1))"

definition ConstantTimeCompare :: "bytes \<Rightarrow> bytes \<Rightarrow> int" where
  "ConstantTimeCompare a b =
     (if length a \<noteq> length b then 0
      else ConstantTimeByteEq (fold (\<lambda>(p, q) v. v OR (p XOR q)) (zip a b) 0) 0)"

definition equalBytes :: "bytes \<Rightarrow> bytes \<Rightarrow> bool" where
  "equalBytes a b = (if length a \<noteq> length b then False else ConstantTimeCompare a b = 1)"

definition validateIssuerBinding ::
  "responder_lib \<Rightarrow> Request option \<Rightarrow> Certificate option \<Rightarrow> binding_error option" where
  "validateIssuerBinding x req issuer =
     (case (req, issuer) of
        (Some rq, Some cert) \<Rightarrow>
          (let h = HashAlgorithm rq in
           if \<not> rl_Available x h then Some UnsupportedHash
           else if \<not> equalBytes (IssuerNameHash rq) (rl_Sum x h (RawSubject cert))
           then Some NameHashMismatch
           else (case rl_SubjectPublicKey x (RawSubjectPublicKeyInfo cert) of
                   None \<Rightarrow> Some SPKIUnparsable
                 | Some bits \<Rightarrow>
                     if \<not> equalBytes (IssuerKeyHash rq) (rl_Sum x h bits) then Some KeyHashMismatch
                     else None))
      | _ \<Rightarrow> Some BindingContext)"

section \<open>Log fields\<close>

definition serialHex :: "int option \<Rightarrow> string" where
  "serialHex n = (case n of None \<Rightarrow> '''' | Some m \<Rightarrow> hex_EncodeToString (big_Bytes m))"

fun statusString :: "Status \<Rightarrow> string" where
  "statusString StatusGood = ''good''"
| "statusString StatusRevoked = ''revoked''"
| "statusString StatusUnknown = ''unknown''"
| "statusString (StatusOther _) = ''unknown''"

definition Milliseconds :: "Duration \<Rightarrow> int" where
  "Milliseconds d = d sdiv Millisecond"

section \<open>Handling a request\<close>

text \<open>The status, the revocation details and the NextUpdate a lookup's outcome stands for.\<close>

definition lookup_outcome ::
  "source_error + CertStatus option \<Rightarrow> Status \<times> RevocationInfo option \<times> Time" where
  "lookup_outcome res =
     (case res of
        Inr (Some cs) \<Rightarrow> (cs_Status cs, cs_RevocationInfo cs, cs_SourceNextUpdate cs)
      | Inr None \<Rightarrow> (StatusUnknown, None, 0)
      | Inl _ \<Rightarrow> (StatusUnknown, None, 0))"

text \<open>From the cache miss on: look up, sign, cache, log.\<close>

definition handle_miss ::
  "'e handle_env \<Rightarrow> int \<Rightarrow> ('e, 's, 'g) Responder
     \<Rightarrow> (responder_error + bytes) \<times> ('e, 's, 'g) Responder \<times> metric_call list \<times> ocsp_log list" where
  "handle_miss he serial r =
     (let m_miss = (if r_metrics r then [RecordCacheMiss] else []);
          (res, src', m_src) =
            GetStatus (r_src_ops r) (he_src he) serial (IssuerCert (r_sgn_ops r) (r_signer r)) (r_source r);
          r' = r\<lparr>r_source := src'\<rparr>;
          name = Name (r_src_ops r) src';
          (status, revInfo, sourceNextUpdate) = lookup_outcome res;
          m_res = (if r_metrics r
                   then [RecordSourceRequest name (case res of Inl _ \<Rightarrow> ''error'' | Inr _ \<Rightarrow> ''ok'')] else [])
      in case CreateResponse (r_sgn_ops r) (r_signer r) serial status revInfo (he_sign_now he) sourceNextUpdate of
           Inl err \<Rightarrow> (Inl (RespSign err), r', m_miss @ m_src @ m_res, [])
         | Inr (der, signedNextUpdate) \<Rightarrow>
             (let (c', m_set) = setAt (he_pick he) (r_cache r) (big_String serial) der (he_set_now he) signedNextUpdate
              in (Inr der, r'\<lparr>r_cache := c'\<rparr>, m_miss @ m_src @ m_res @ m_set,
                  [\<lparr>l_serial = serialHex (Some serial), l_status = statusString status, l_source = name,
                    l_cache_hit = False,
                    l_duration_ms = Milliseconds (Time_Sub (he_log_now he) (he_start he))\<rparr>])))"

definition Handle ::
  "responder_lib \<Rightarrow> 'e handle_env \<Rightarrow> bytes \<Rightarrow> ('e, 's, 'g) Responder
     \<Rightarrow> (responder_error + bytes) \<times> ('e, 's, 'g) Responder \<times> metric_call list \<times> ocsp_log list" where
  "Handle x he requestDER r =
     (case he_ctxErr he of
        Some err \<Rightarrow> (Inl (RespCtx err), r, [], [])
      | None \<Rightarrow>
        (case rl_ParseRequest x requestDER of
           None \<Rightarrow> (Inl RespParse, r, [], [])
         | Some req \<Rightarrow>
           (case validateIssuerBinding x (Some req) (IssuerCert (r_sgn_ops r) (r_signer r)) of
              Some err \<Rightarrow> (Inl (RespBinding err), r, [], [])
            | None \<Rightarrow>
                (let serial = SerialNumber req;
                     (hit, c', m_get) = getAt (r_cache r) (big_String serial) (he_get_now he);
                     r' = r\<lparr>r_cache := c'\<rparr>
                 in case hit of
                      Some data \<Rightarrow>
                        (Inr data, r', m_get @ (if r_metrics r then [RecordCacheHit] else []),
                         [\<lparr>l_serial = serialHex (Some serial), l_status = ''cached'',
                           l_source = Name (r_src_ops r) (r_source r), l_cache_hit = True,
                           l_duration_ms = Milliseconds (Time_Sub (he_log_now he) (he_start he))\<rparr>])
                    | None \<Rightarrow>
                        (let (res, r2, ms, ls) = handle_miss he serial r' in (res, r2, m_get @ ms, ls))))))"

section \<open>Comparison and binding\<close>

lemma xor_eq_0_iff: "(a :: byte) XOR b = 0 \<longleftrightarrow> a = b"
proof
  assume "a XOR b = 0"
  then have "(a XOR b) XOR b = b" by simp
  then show "a = b" by (simp add: xor.assoc)
qed simp

lemma ConstantTimeByteEq_eq: "ConstantTimeByteEq a b = (if a = b then 1 else 0)"
proof (cases "a = b")
  case True
  then show ?thesis by (simp add: ConstantTimeByteEq_def)
next
  case False
  define v where "v = a XOR b"
  have v0: "v \<noteq> 0" using False by (simp add: v_def xor_eq_0_iff)
  have b: "0 < uint v" "uint v < 2 ^ 8"
    using v0 uint_bounded [of v] by (auto simp: less_le uint_nonnegative word_uint_eq_iff)
  have u: "uint (ucast v :: 32 word) = uint v"
    using b by (simp add: unsigned_ucast_eq take_bit_int_eq_self)
  have "uint ((ucast v :: 32 word) - 1) = uint v - 1"
    using b u by (simp add: uint_sub_if' uint_word_ariths mod_pos_pos_trivial)
  then have "uint (drop_bit 31 ((ucast v :: 32 word) - 1)) = (uint v - 1) div 2 ^ 31"
    by (simp add: drop_bit_eq_div uint_div_distrib)
  also have "\<dots> = 0" using b by simp
  finally show ?thesis using False by (simp add: ConstantTimeByteEq_def v_def)
qed

lemma fold_or_zero:
  "fold (\<lambda>(p, q) v. v OR (p XOR q)) zs (v :: byte) = 0 \<longleftrightarrow> v = 0 \<and> (\<forall>(p, q) \<in> set zs. p = q)"
  by (induction zs arbitrary: v) (auto simp: or_eq_0_iff xor_eq_0_iff)

lemma zip_all_eq: "length a = length b \<Longrightarrow> (\<forall>(p, q) \<in> set (zip a b). p = q) \<longleftrightarrow> a = b"
  by (induction a b rule: list_induct2) auto

lemma equalBytes_iff: "equalBytes a b \<longleftrightarrow> a = b"
proof (cases "length a = length b")
  case True
  then have "equalBytes a b \<longleftrightarrow> (\<forall>(p, q) \<in> set (zip a b). p = q)"
    by (simp add: equalBytes_def ConstantTimeCompare_def ConstantTimeByteEq_eq fold_or_zero)
  with True show ?thesis by (simp only: zip_all_eq)
qed (auto simp: equalBytes_def)

text \<open>A CertID (RFC 6960, 4.1.1) that names the issuer: hashes of its subject and of its key bits.\<close>

definition names_issuer :: "responder_lib \<Rightarrow> Request \<Rightarrow> Certificate \<Rightarrow> bool" where
  "names_issuer x rq cert \<longleftrightarrow>
     rl_Available x (HashAlgorithm rq) \<and>
     IssuerNameHash rq = rl_Sum x (HashAlgorithm rq) (RawSubject cert) \<and>
     Some (IssuerKeyHash rq) =
       map_option (rl_Sum x (HashAlgorithm rq)) (rl_SubjectPublicKey x (RawSubjectPublicKeyInfo cert))"

lemma validateIssuerBinding_iff:
  "validateIssuerBinding x (Some rq) issuer = None \<longleftrightarrow> (\<exists>cert. issuer = Some cert \<and> names_issuer x rq cert)"
  by (cases issuer)
    (auto simp: validateIssuerBinding_def names_issuer_def equalBytes_iff Let_def split: option.splits)

section \<open>What one request does\<close>

abbreviation looked_up ::
  "('e, 's, 'g) Responder \<Rightarrow> 'e handle_env \<Rightarrow> int \<Rightarrow> Status \<times> RevocationInfo option \<times> Time" where
  "looked_up r he n \<equiv>
     lookup_outcome (fst (GetStatus (r_src_ops r) (he_src he) n (IssuerCert (r_sgn_ops r) (r_signer r)) (r_source r)))"

abbreviation sign_lookup ::
  "('e, 's, 'g) Responder \<Rightarrow> 'e handle_env \<Rightarrow> int \<Rightarrow> signer_error + bytes \<times> Time" where
  "sign_lookup r he n \<equiv>
     (case looked_up r he n of
        (st, ri, su) \<Rightarrow> CreateResponse (r_sgn_ops r) (r_signer r) n st ri (he_sign_now he) su)"

text \<open>A request that reaches the lookup: live context, well-formed, bound to the signer's issuer.\<close>

definition admitted :: "responder_lib \<Rightarrow> 'e handle_env \<Rightarrow> bytes \<Rightarrow> ('e, 's, 'g) Responder \<Rightarrow> Request \<Rightarrow> bool" where
  "admitted x he der r req \<longleftrightarrow>
     he_ctxErr he = None \<and> rl_ParseRequest x der = Some req \<and>
     (case IssuerCert (r_sgn_ops r) (r_signer r) of None \<Rightarrow> False | Some cert \<Rightarrow> names_issuer x req cert)"

lemma handle_miss_result:
  assumes "handle_miss he n r = (res, r', ms, ls)"
  shows "res = (case sign_lookup r he n of Inl err \<Rightarrow> Inl (RespSign err) | Inr (d, nu) \<Rightarrow> Inr d)"
    and "r_source r' = fst (snd (GetStatus (r_src_ops r) (he_src he) n (IssuerCert (r_sgn_ops r) (r_signer r)) (r_source r)))"
    and "r_cache r' = (case sign_lookup r he n of
           Inl err \<Rightarrow> r_cache r
         | Inr (d, nu) \<Rightarrow> fst (setAt (he_pick he) (r_cache r) (big_String n) d (he_set_now he) nu))"
    and "r_src_ops r' = r_src_ops r \<and> r_sgn_ops r' = r_sgn_ops r \<and> r_signer r' = r_signer r \<and> r_metrics r' = r_metrics r"
  using assms by (auto simp: handle_miss_def Let_def split: prod.splits sum.splits)

lemma Handle_refused:
  assumes "\<And>req. \<not> admitted x he der r req" and "Handle x he der r = (res, r', ms, ls)"
  shows "\<exists>err. res = Inl err" and "r' = r" and "ms = []" and "ls = []"
  using assms
  by (auto simp: Handle_def admitted_def validateIssuerBinding_iff split: option.splits)

lemma Handle_admitted:
  assumes "admitted x he der r req" and "getAt (r_cache r) (big_String (SerialNumber req)) (he_get_now he) = (hit, c', m_get)"
  shows "Handle x he der r =
     (case hit of
        Some data \<Rightarrow>
          (Inr data, r\<lparr>r_cache := c'\<rparr>, m_get @ (if r_metrics r then [RecordCacheHit] else []),
           [\<lparr>l_serial = serialHex (Some (SerialNumber req)), l_status = ''cached'',
             l_source = Name (r_src_ops r) (r_source r), l_cache_hit = True,
             l_duration_ms = Milliseconds (Time_Sub (he_log_now he) (he_start he))\<rparr>])
      | None \<Rightarrow>
          (let (res, r2, ms, ls) = handle_miss he (SerialNumber req) (r\<lparr>r_cache := c'\<rparr>) in (res, r2, m_get @ ms, ls)))"
proof -
  from assms(1) have "validateIssuerBinding x (Some req) (IssuerCert (r_sgn_ops r) (r_signer r)) = None"
    by (auto simp: admitted_def validateIssuerBinding_iff split: option.splits)
  with assms show ?thesis by (simp add: Handle_def admitted_def Let_def)
qed

lemma Handle_frame:
  assumes "Handle x he der r = (res, r', ms, ls)"
  shows "r_src_ops r' = r_src_ops r \<and> r_sgn_ops r' = r_sgn_ops r \<and> r_signer r' = r_signer r \<and> r_metrics r' = r_metrics r"
proof (cases "\<exists>req. admitted x he der r req")
  case True
  then obtain req where a: "admitted x he der r req" by blast
  obtain hit c' mg where g: "getAt (r_cache r) (big_String (SerialNumber req)) (he_get_now he) = (hit, c', mg)"
    by (metis prod_cases3)
  from assms show ?thesis unfolding Handle_admitted [OF a g]
    by (auto dest!: handle_miss_result(4) split: option.splits prod.splits)
next
  case False
  with Handle_refused(2) [OF _ assms] show ?thesis by blast
qed

lemma Handle_Inr:
  assumes inv: "cache_inv (r_cache r)" and eq: "Handle x he der r = (Inr d, r', ms, ls)"
  obtains (hit) req e where "admitted x he der r req"
      and "cached (r_cache r) (big_String (SerialNumber req)) = Some e" and "he_get_now he < e_expiresAt e"
      and "d = e_data e"
  | (miss) req nu where "admitted x he der r req" and "sign_lookup r he (SerialNumber req) = Inr (d, nu)"
proof -
  from Handle_refused(1) [OF _ eq] obtain req where a: "admitted x he der r req" by blast
  obtain hit c' mg where g: "getAt (r_cache r) (big_String (SerialNumber req)) (he_get_now he) = (hit, c', mg)"
    by (metis prod_cases3)
  show ?thesis
  proof (cases hit)
    case (Some data)
    with getAt_inv(5) [OF inv g] obtain e where e: "cached (r_cache r) (big_String (SerialNumber req)) = Some e"
      "he_get_now he < e_expiresAt e" "data = e_data e" by (auto split: option.splits if_splits)
    from eq Some e(3) have "d = e_data e" by (simp add: Handle_admitted [OF a g])
    with a e(1,2) show ?thesis by (rule that(1))
  next
    case None
    obtain res r2 ms2 ls2 where m: "handle_miss he (SerialNumber req) (r\<lparr>r_cache := c'\<rparr>) = (res, r2, ms2, ls2)"
      by (metis prod_cases4)
    from eq None m have "res = Inr d" by (simp add: Handle_admitted [OF a g])
    with handle_miss_result(1) [OF m] obtain nu where "sign_lookup r he (SerialNumber req) = Inr (d, nu)"
      by (auto split: sum.splits)
    with a show ?thesis by (rule that(2))
  qed
qed

text \<open>The cache after a request: after the lookup, and after the insertion when there was one.\<close>

lemma Handle_r_cache:
  assumes a: "admitted x he der r req"
    and g: "getAt (r_cache r) (big_String (SerialNumber req)) (he_get_now he) = (hit, c', mg)"
    and eq: "Handle x he der r = (res, r', ms, ls)"
  shows "r_cache r' =
    (case (hit, sign_lookup r he (SerialNumber req)) of
       (None, Inr (d, nu)) \<Rightarrow> fst (setAt (he_pick he) c' (big_String (SerialNumber req)) d (he_set_now he) nu)
     | _ \<Rightarrow> c')"
proof -
  obtain res2 r2 ms2 ls2 where m: "handle_miss he (SerialNumber req) (r\<lparr>r_cache := c'\<rparr>) = (res2, r2, ms2, ls2)"
    by (metis prod_cases4)
  show ?thesis
  proof (cases hit)
    case None
    with eq m have "r' = r2" by (simp add: Handle_admitted [OF a g])
    with None handle_miss_result(3) [OF m] show ?thesis by (cases "sign_lookup r he (SerialNumber req)") auto
  next
    case (Some d)
    with eq show ?thesis by (auto simp: Handle_admitted [OF a g])
  qed
qed

text \<open>An entry this request put into the cache.\<close>

definition fresh_entry ::
  "responder_lib \<Rightarrow> 'e handle_env \<Rightarrow> bytes \<Rightarrow> ('e, 's, 'g) Responder \<Rightarrow> string \<Rightarrow> cacheEntry \<Rightarrow> bool" where
  "fresh_entry x he der r k e \<longleftrightarrow>
     (\<exists>req nu. admitted x he der r req \<and> k = big_String (SerialNumber req) \<and>
        sign_lookup r he (SerialNumber req) = Inr (e_data e, nu) \<and>
        e_expiresAt e = entry_expiry (c_ttl (r_cache r)) (he_set_now he) nu)"

lemma Handle_cache:
  assumes inv: "cache_inv (r_cache r)" and eq: "Handle x he der r = (res, r', ms, ls)"
  shows "cache_inv (r_cache r') \<and> same_config (r_cache r) (r_cache r') \<and>
    (\<forall>k e. cached (r_cache r') k = Some e \<longrightarrow> cached (r_cache r) k = Some e \<or> fresh_entry x he der r k e)"
proof (cases "\<exists>req. admitted x he der r req")
  case False
  with Handle_refused(2) [OF _ eq] inv show ?thesis by (auto simp: same_config_def)
next
  case True
  then obtain req where a: "admitted x he der r req" by blast
  let ?k = "big_String (SerialNumber req)"
  obtain hit c' mg where g: "getAt (r_cache r) ?k (he_get_now he) = (hit, c', mg)" by (metis prod_cases3)
  note gi = getAt_inv [OF inv g] and rc = Handle_r_cache [OF a g eq]
  show ?thesis
  proof (cases "\<exists>d nu. hit = None \<and> sign_lookup r he (SerialNumber req) = Inr (d, nu)")
    case False
    then have "r_cache r' = c'" unfolding rc by (auto split: option.splits sum.splits prod.splits)
    with gi(1-3) show ?thesis by auto
  next
    case True
    then obtain d nu where d: "hit = None" "sign_lookup r he (SerialNumber req) = Inr (d, nu)" by blast
    obtain c2 ev2 where s: "setAt (he_pick he) c' ?k d (he_set_now he) nu = (c2, ev2)" by (metis prod.exhaust)
    with d have rc: "r_cache r' = c2" unfolding rc by simp
    note si = setAt_inv [OF gi(1) s]
    have "cached (r_cache r) k = Some e \<or> fresh_entry x he der r k e" if "cached c2 k = Some e" for k e
      using si(3) [OF that] gi(2,3) a d(2) by (auto simp: fresh_entry_def same_config_def)
    with si(1,2) gi(2) show ?thesis unfolding rc by (auto simp: same_config_def)
  qed
qed

section \<open>Histories\<close>

text \<open>
  A history of a responder: requests, and moves of the source on its own (a CRL reload between two
  requests).
\<close>

datatype ('e, 's) revent =
    Req "'e handle_env" bytes
  | SourceMoves 's

fun revent_step :: "responder_lib \<Rightarrow> ('e, 's) revent \<Rightarrow> ('e, 's, 'g) Responder \<Rightarrow> ('e, 's, 'g) Responder" where
  "revent_step x (Req he der) r = fst (snd (Handle x he der r))"
| "revent_step x (SourceMoves s) r = r\<lparr>r_source := s\<rparr>"

definition serve :: "responder_lib \<Rightarrow> ('e, 's) revent list \<Rightarrow> ('e, 's, 'g) Responder \<Rightarrow> ('e, 's, 'g) Responder" where
  "serve x evs r = fold (revent_step x) evs r"

lemma serve_Nil [simp]: "serve x [] r = r"
  by (simp add: serve_def)

lemma serve_snoc [simp]: "serve x (evs @ [ev]) r = revent_step x ev (serve x evs r)"
  by (simp add: serve_def)

lemma revent_step_frame:
  "r_src_ops (revent_step x ev r) = r_src_ops r \<and> r_sgn_ops (revent_step x ev r) = r_sgn_ops r \<and>
   r_signer (revent_step x ev r) = r_signer r \<and> r_metrics (revent_step x ev r) = r_metrics r"
proof (cases ev)
  case (Req he der)
  obtain res r' ms ls where h: "Handle x he der r = (res, r', ms, ls)" by (metis prod_cases4)
  from Handle_frame [OF h] show ?thesis by (simp add: Req h)
qed simp

lemma serve_frame [simp]:
  "r_src_ops (serve x evs r) = r_src_ops r" "r_sgn_ops (serve x evs r) = r_sgn_ops r"
  "r_signer (serve x evs r) = r_signer r" "r_metrics (serve x evs r) = r_metrics r"
  by (induction evs rule: rev_induct) (simp_all add: revent_step_frame)

lemma revent_step_cache:
  assumes "cache_inv (r_cache r)"
  shows "cache_inv (r_cache (revent_step x ev r)) \<and> same_config (r_cache r) (r_cache (revent_step x ev r)) \<and>
    (cached (r_cache (revent_step x ev r)) k = Some e \<longrightarrow>
       cached (r_cache r) k = Some e \<or> (\<exists>he der. ev = Req he der \<and> fresh_entry x he der r k e))"
proof (cases ev)
  case (Req he der)
  obtain res r' ms ls where h: "Handle x he der r = (res, r', ms, ls)" by (metis prod_cases4)
  from Handle_cache [OF assms h] show ?thesis by (simp add: Req h)
next
  case (SourceMoves s)
  with assms show ?thesis by (simp add: same_config_def)
qed

lemma serve_cache:
  assumes "cache_inv (r_cache r)"
  shows "cache_inv (r_cache (serve x evs r)) \<and> same_config (r_cache r) (r_cache (serve x evs r))"
proof (induction evs rule: rev_induct)
  case Nil
  with assms show ?case by (simp add: same_config_def)
next
  case (snoc ev evs)
  with revent_step_cache [of "serve x evs r" x ev] show ?case by (auto simp: same_config_def)
qed

text \<open>Every cached response was put there by a request of the history.\<close>

lemma serve_provenance:
  assumes "cache_inv (r_cache r)" and "c_entries (r_cache r) = []"
    and "cached (r_cache (serve x evs r)) k = Some e"
  shows "\<exists>pre he der post. evs = pre @ Req he der # post \<and> fresh_entry x he der (serve x pre r) k e"
  using assms(3)
proof (induction evs rule: rev_induct)
  case Nil
  with assms(2) show ?case by simp
next
  case (snoc ev evs)
  from serve_cache [OF assms(1)] have "cache_inv (r_cache (serve x evs r))" by blast
  from revent_step_cache [OF this, of x ev k e] snoc.prems
  consider "cached (r_cache (serve x evs r)) k = Some e"
    | he der where "ev = Req he der" "fresh_entry x he der (serve x evs r) k e" by auto
  then show ?case
  proof cases
    case 1
    from snoc.IH [OF this] show ?thesis by fastforce
  qed auto
qed

section \<open>The service\<close>

text \<open>
  \<open>accounted\<close>: what a client may conclude from bytes \<open>d\<close> that a responder with history \<open>evs\<close> returns
  for \<open>der\<close>.  The request names this responder's issuer, and at some request of the history (this one
  included) the source was asked about the very serial, the bytes assert what it answered then (or
  \<open>unknown\<close>), no longer than the source's NextUpdate; if that was an earlier request, the cache TTL
  counted from it has not passed and neither has the signed NextUpdate.  \<open>good\<close> and \<open>revoked\<close> are the
  source's own word.
\<close>

definition accounted ::
  "responder_lib \<Rightarrow> ('g \<Rightarrow> bytes \<Rightarrow> int \<Rightarrow> Status \<Rightarrow> RevocationInfo option \<Rightarrow> Time \<Rightarrow> Time \<Rightarrow> bool)
   \<Rightarrow> ('e \<Rightarrow> 's \<Rightarrow> int \<Rightarrow> bool) \<Rightarrow> ('e \<Rightarrow> 's \<Rightarrow> int \<Rightarrow> RevocationInfo \<Rightarrow> bool)
   \<Rightarrow> ('e, 's, 'g) Responder \<Rightarrow> ('e, 's) revent list \<Rightarrow> 'e handle_env \<Rightarrow> bytes \<Rightarrow> bytes \<Rightarrow> bool" where
  "accounted x asserts vouches revokes r0 evs he der d \<longleftrightarrow>
     (\<exists>req cert pre he' der' post st ri su nu.
        rl_ParseRequest x der = Some req \<and> IssuerCert (r_sgn_ops r0) (r_signer r0) = Some cert \<and>
        names_issuer x req cert \<and>
        evs @ [Req he der] = pre @ Req he' der' # post \<and>
        looked_up (serve x pre r0) he' (SerialNumber req) = (st, ri, su) \<and>
        asserts (r_signer r0) d (SerialNumber req) st ri (he_sign_now he') nu \<and>
        (su = 0 \<or> nu \<le> su) \<and>
        (post = [] \<or>
           he_get_now he < he_set_now he' + c_ttl (r_cache r0) \<and> (nu = 0 \<or> he_get_now he < nu)) \<and>
        (case st of
           StatusGood \<Rightarrow> vouches (he_src he') (r_source (serve x pre r0)) (SerialNumber req)
         | StatusRevoked \<Rightarrow>
             (case ri of
                None \<Rightarrow> False
              | Some i \<Rightarrow> revokes (he_src he') (r_source (serve x pre r0)) (SerialNumber req) i)
         | StatusUnknown \<Rightarrow> True
         | StatusOther _ \<Rightarrow> False))"

locale ocsp_service =
  src: status_source sops inv ctxErr vouches revokes + sgn: response_signer "CreateResponse gops" asserts
  for sops :: "('e, 's) Source" and inv ctxErr vouches revokes and gops :: "'g signer_ops" and asserts
begin

lemma inv_revent_step:
  assumes "inv (r_source r)" and "r_src_ops r = sops" and "\<And>s. ev = SourceMoves s \<Longrightarrow> inv s"
  shows "inv (r_source (revent_step x ev r))"
proof (cases ev)
  case (Req he der)
  obtain res r' ms ls where h: "Handle x he der r = (res, r', ms, ls)" by (metis prod_cases4)
  have "inv (r_source r')"
  proof (cases "\<exists>req. admitted x he der r req")
    case True
    then obtain req where a: "admitted x he der r req" by blast
    obtain hit c' mg where g: "getAt (r_cache r) (big_String (SerialNumber req)) (he_get_now he) = (hit, c', mg)"
      by (metis prod_cases3)
    obtain lres s' ev' where l: "GetStatus sops (he_src he) (SerialNumber req)
        (IssuerCert (r_sgn_ops r) (r_signer r)) (r_source r) = (lres, s', ev')" by (metis prod_cases3)
    have "r_source r' = r_source r \<or> r_source r' = s'"
      using h l assms(2) unfolding Handle_admitted [OF a g]
      by (auto dest!: handle_miss_result(2) split: option.splits prod.splits)
    with src.inv_GetStatus [OF assms(1) l] assms(1) show ?thesis by auto
  next
    case False
    with Handle_refused(2) [OF _ h] assms(1) show ?thesis by simp
  qed
  then show ?thesis by (simp add: Req h)
qed (use assms(3) in simp)

lemma inv_serve:
  assumes "inv (r_source r)" and "r_src_ops r = sops" and "\<forall>s. SourceMoves s \<in> set evs \<longrightarrow> inv s"
  shows "inv (r_source (serve x evs r))"
  using assms(3)
proof (induction evs rule: rev_induct)
  case (snoc ev evs)
  then show ?case using assms(2) by (auto intro: inv_revent_step)
qed (use assms(1) in simp)

text \<open>What a lookup's outcome says is the source's own word.\<close>

lemma outcome_own_word:
  assumes "inv s" and "lookup_outcome (fst (GetStatus sops e n i s)) = (st, ri, su)"
  shows "case st of
           StatusGood \<Rightarrow> vouches e s n
         | StatusRevoked \<Rightarrow> (case ri of None \<Rightarrow> False | Some rv \<Rightarrow> revokes e s n rv)
         | StatusUnknown \<Rightarrow> True
         | StatusOther _ \<Rightarrow> False"
proof -
  obtain res s' ev where g: "GetStatus sops e n i s = (res, s', ev)" by (metis prod_cases3)
  show ?thesis
  proof (cases "\<exists>cs. res = Inr (Some cs)")
    case True
    then obtain cs where r: "res = Inr (Some cs)" by blast
    note law = g [unfolded r]
    from src.wf_GetStatus [OF assms(1) law] src.good_GetStatus [OF assms(1) law]
      src.revoked_GetStatus [OF assms(1) law] assms(2) g r
    show ?thesis
      by (auto simp: lookup_outcome_def wf_CertStatus.simps split: Status.splits option.splits)
  next
    case False
    with assms(2) g show ?thesis by (auto simp: lookup_outcome_def split: sum.splits option.splits)
  qed
qed

lemma signed_lookup:
  assumes "r_sgn_ops r = gops" and "sign_lookup r he n = Inr (d, nu)"
  shows "\<exists>st ri su. looked_up r he n = (st, ri, su) \<and> asserts (r_signer r) d n st ri (he_sign_now he) nu \<and>
    (su = 0 \<or> nu \<le> su)"
proof -
  obtain st ri su where l: "looked_up r he n = (st, ri, su)" by (metis prod_cases3)
  with assms have c: "CreateResponse gops (r_signer r) n st ri (he_sign_now he) su = Inr (d, nu)" by simp
  from l sgn.create_asserts [OF c] sgn.create_capped [OF c] show ?thesis by blast
qed

text \<open>Every response of a service that started with an empty cache is accounted for.\<close>

lemma service_accounted:
  assumes ops: "r_src_ops r0 = sops" "r_sgn_ops r0 = gops" and empty: "c_entries (r_cache r0) = []"
    and inv0: "inv (r_source r0)" and moves: "\<forall>s. SourceMoves s \<in> set evs \<longrightarrow> inv s"
    and eq: "Handle x he der (serve x evs r0) = (Inr d, r', ms, ls)"
  shows "accounted x asserts vouches revokes r0 evs he der d"
proof -
  let ?r = "serve x evs r0"
  have ci0: "cache_inv (r_cache r0)" using empty by (simp add: cache_inv_def)
  have ci: "cache_inv (r_cache ?r)" using serve_cache [OF ci0] by blast
  have built: "accounted x asserts vouches revokes r0 evs he der d"
    if a: "admitted x he der ?r req" and split: "evs @ [Req he der] = pre @ Req he' der' # post"
      and s: "sign_lookup (serve x pre r0) he' (SerialNumber req) = Inr (d, nu)"
      and live: "post = [] \<or> he_get_now he < he_set_now he' + c_ttl (r_cache r0) \<and> (nu = 0 \<or> he_get_now he < nu)"
    for req pre he' der' post nu
  proof -
    have "set pre \<subseteq> set (evs @ [Req he der])" unfolding split by auto
    with moves have i: "inv (r_source (serve x pre r0))"
      by (intro inv_serve [OF inv0 ops(1)]) auto
    from signed_lookup [OF _ s] ops(2) obtain st ri su
      where l: "looked_up (serve x pre r0) he' (SerialNumber req) = (st, ri, su)"
        and "asserts (r_signer r0) d (SerialNumber req) st ri (he_sign_now he') nu" "su = 0 \<or> nu \<le> su"
      by auto
    moreover have "case st of StatusGood \<Rightarrow> vouches (he_src he') (r_source (serve x pre r0)) (SerialNumber req)
         | StatusRevoked \<Rightarrow> (case ri of None \<Rightarrow> False
             | Some i \<Rightarrow> revokes (he_src he') (r_source (serve x pre r0)) (SerialNumber req) i)
         | StatusUnknown \<Rightarrow> True | StatusOther _ \<Rightarrow> False"
      using l ops(1) by (intro outcome_own_word [OF i]) simp
    moreover obtain cert where "rl_ParseRequest x der = Some req"
      "IssuerCert (r_sgn_ops r0) (r_signer r0) = Some cert" "names_issuer x req cert"
      using a by (auto simp: admitted_def split: option.splits)
    ultimately show ?thesis using split live unfolding accounted_def by blast
  qed
  show ?thesis
  proof (cases rule: Handle_Inr [OF ci eq])
    case (1 req e)
    from serve_provenance [OF ci0 empty 1(2)] obtain pre he' der' post
      where p: "evs = pre @ Req he' der' # post"
        and f: "fresh_entry x he' der' (serve x pre r0) (big_String (SerialNumber req)) e" by blast
    have ttl: "c_ttl (r_cache (serve x pre r0)) = c_ttl (r_cache r0)"
      using serve_cache [OF ci0, of x pre] by (simp add: same_config_def)
    from f obtain nu where s: "sign_lookup (serve x pre r0) he' (SerialNumber req) = Inr (d, nu)"
      and x: "e_expiresAt e = entry_expiry (c_ttl (r_cache r0)) (he_set_now he') nu"
      using 1(4) ttl by (auto simp: fresh_entry_def)
    have "he_get_now he < he_set_now he' + c_ttl (r_cache r0) \<and> (nu = 0 \<or> he_get_now he < nu)"
      using 1(3) by (auto simp: x entry_expiry_eq split: if_splits)
    with 1(1) s p show ?thesis by (intro built [of req pre he' der' "post @ [Req he der]" nu]) auto
  next
    case (2 req nu)
    then show ?thesis by (intro built [of req evs he der "[]" nu]) auto
  qed
qed

end

section \<open>The delegated signer as the responder sees it\<close>

definition signer_iface :: "xocsp_CreateResponse \<Rightarrow> Signer signer_ops" where
  "signer_iface xocsp =
     \<lparr>IssuerCert = (\<lambda>s. Some (Signer_IssuerCert s)), CreateResponse = Signer_CreateResponse xocsp\<rparr>"

lemma signer_iface_simps [simp]:
  "IssuerCert (signer_iface xocsp) s = Some (sg_issuerCert s)"
  "CreateResponse (signer_iface xocsp) = Signer_CreateResponse xocsp"
  by (simp_all add: signer_iface_def Signer_IssuerCert_def)

section \<open>Properties\<close>

text \<open>
  C11: issuer binding is exact: a parsed request passes exactly when its hash algorithm is available and
  its two hashes are those of the subject and of the public key of the issuer the signer answers for.
  The constant-time comparison behind it, as the library computes it on bytes, is equality.
\<close>
theorem issuer_binding:
  "(validateIssuerBinding x (Some rq) issuer = None \<longleftrightarrow>
      (\<exists>cert. issuer = Some cert \<and> names_issuer x rq cert)) \<and>
   (equalBytes a b \<longleftrightarrow> a = b)"
  by (simp add: validateIssuerBinding_iff equalBytes_iff)

text \<open>
  C12: a request with a dead context, that does not parse, or that is not bound to this signer's issuer
  is answered with an error before anything else happens: the cache and the source are not
  consulted, nothing is signed, counted or logged.
\<close>
theorem refused_untouched:
  assumes "\<not> (\<exists>req. admitted x he der r req)" and "Handle x he der r = (res, r', ms, ls)"
  shows "res \<in> range Inl \<and> r' = r \<and> ms = [] \<and> ls = []"
  using Handle_refused [OF _ assms(2)] assms(1) by blast

section \<open>Witnesses\<close>

text \<open>A two-byte request format (name hash, serial), the identity for a hash.\<close>

definition ex_rlib :: responder_lib where
  "ex_rlib =
     \<lparr>rl_ParseRequest = (\<lambda>der. case der of
          [h, n] \<Rightarrow> Some \<lparr>HashAlgorithm = 3, IssuerNameHash = [h], IssuerKeyHash = [8], SerialNumber = uint n\<rparr>
        | _ \<Rightarrow> None),
      rl_Available = (\<lambda>h. h = 3), rl_Sum = (\<lambda>h bs. bs), rl_SubjectPublicKey = (\<lambda>b. Some b)\<rparr>"

definition ex_responder :: "(call_env, StaticSource, Signer) Responder" where
  "ex_responder = NewResponder static_source \<lparr>st_status = StatusGood\<rparr> (signer_iface ex_xocsp) ex_signer Hour 10 True True True"

definition ex_handle_env :: "call_env handle_env" where
  "ex_handle_env = \<lparr>he_ctxErr = None, he_start = 10 * Day, he_get_now = 10 * Day + 1,
     he_src = \<lparr>ce_ctxErr = None, ce_now = 10 * Day + 2\<rparr>, he_sign_now = 10 * Day + 3, he_set_now = 10 * Day + 4,
     he_pick = 0, he_log_now = 10 * Day + 5\<rparr>"

theorem refused_untouched_witness:
  "\<not> (\<exists>req. admitted ex_rlib ex_handle_env [6, 5] ex_responder req) \<and>
   fst (Handle ex_rlib ex_handle_env [6, 5] ex_responder) = Inl (RespBinding NameHashMismatch) \<and>
   fst (snd (Handle ex_rlib ex_handle_env [6, 5] ex_responder)) = ex_responder"
proof -
  have n: "\<not> (\<exists>req. admitted ex_rlib ex_handle_env [6, 5] ex_responder req)"
    by (simp add: admitted_def ex_rlib_def ex_responder_def NewResponder_def names_issuer_def ex_signer_def)
  have h: "fst (Handle ex_rlib ex_handle_env [6, 5] ex_responder) = Inl (RespBinding NameHashMismatch)"
    by (simp add: Handle_def ex_handle_env_def ex_rlib_def ex_responder_def NewResponder_def
        validateIssuerBinding_def equalBytes_iff ex_signer_def)
  obtain res r' ms ls where eq: "Handle ex_rlib ex_handle_env [6, 5] ex_responder = (res, r', ms, ls)"
    by (metis prod_cases4)
  from refused_untouched [OF n eq] n h eq show ?thesis by simp
qed

end
