(* ===== verification/Base64.thy ===== *)
theory Base64
  imports Prelude
begin

text \<open>
  Package \<open>encoding/base64\<close> as the GET handler uses it: the four predefined encodings and the lenient
  decoder (newlines are skipped anywhere, unused trailing bits are not checked, padding is required
  exactly by the padded encodings).  The encoders state what a client sends.
\<close>

section \<open>Encodings\<close>

record b64 =
  b_url :: bool
  b_pad :: bool

definition StdEncoding :: b64 where "StdEncoding = \<lparr>b_url = False, b_pad = True\<rparr>"
definition RawStdEncoding :: b64 where "RawStdEncoding = \<lparr>b_url = False, b_pad = False\<rparr>"
definition URLEncoding :: b64 where "URLEncoding = \<lparr>b_url = True, b_pad = True\<rparr>"
definition RawURLEncoding :: b64 where "RawURLEncoding = \<lparr>b_url = True, b_pad = False\<rparr>"

text \<open>
  The alphabets: \<open>A\<close>-\<open>Z\<close>, \<open>a\<close>-\<open>z\<close>, \<open>0\<close>-\<open>9\<close>, then \<open>+\<close> and \<open>/\<close> (codes 43 and 47), or \<open>-\<close> and \<open>_\<close>
  (codes 45 and 95) in the URL alphabet.
\<close>

definition sextet_code :: "b64 \<Rightarrow> nat \<Rightarrow> nat" where
  "sextet_code e v =
     (if v < 26 then 65 + v
      else if v < 52 then 97 + (v - 26)
      else if v < 62 then 48 + (v - 52)
      else if v = 62 then (if b_url e then 45 else 43)
      else (if b_url e then 95 else 47))"

definition code_sextet :: "b64 \<Rightarrow> nat \<Rightarrow> nat option" where
  "code_sextet e k =
     (if 65 \<le> k \<and> k \<le> 90 then Some (k - 65)
      else if 97 \<le> k \<and> k \<le> 122 then Some (k - 97 + 26)
      else if 48 \<le> k \<and> k \<le> 57 then Some (k - 48 + 52)
      else if k = (if b_url e then 45 else 43) then Some 62
      else if k = (if b_url e then 95 else 47) then Some 63
      else None)"

definition sextet_char :: "b64 \<Rightarrow> nat \<Rightarrow> char" where
  "sextet_char e v = char_of (sextet_code e v)"

definition sextet :: "b64 \<Rightarrow> char \<Rightarrow> nat option" where
  "sextet e c = code_sextet e (of_char c)"

definition is_newline :: "char \<Rightarrow> bool" where
  "is_newline c \<longleftrightarrow> c = CHR 0x0A \<or> c = CHR 0x0D"

section \<open>Decoding\<close>

text \<open>The bytes of a quantum of 2, 3 or 4 sextets.\<close>

definition assemble :: "nat list \<Rightarrow> bytes" where
  "assemble ds =
     (let d = (\<lambda>i. if i < length ds then ds ! i else 0);
          v = d 0 * 2 ^ 18 + d 1 * 2 ^ 12 + d 2 * 2 ^ 6 + d 3
      in take (length ds - 1) [of_nat (v div 2 ^ 16), of_nat (v div 2 ^ 8), of_nat v])"

text \<open>
  \<open>decodeQuantum\<close> with the sextets read so far: the decoded bytes and the rest of the input, or \<open>None\<close>
  for a \<open>CorruptInputError\<close>.
\<close>

fun decodeQuantum :: "b64 \<Rightarrow> nat list \<Rightarrow> string \<Rightarrow> (bytes \<times> string) option" where
  "decodeQuantum e ds [] =
     (if length ds = 4 then Some (assemble ds, [])
      else if ds = [] then Some ([], [])
      else if length ds = 1 \<or> b_pad e then None
      else Some (assemble ds, []))"
| "decodeQuantum e ds (c # cs) =
     (if length ds = 4 then Some (assemble ds, c # cs)
      else case sextet e c of
        Some v \<Rightarrow> decodeQuantum e (ds @ [v]) cs
      | None \<Rightarrow>
          if is_newline c then decodeQuantum e ds cs
          else if \<not> (b_pad e \<and> c = CHR ''='') then None
          else if length ds < 2 then None
          else
            (case (if length ds = 2
                   then (case dropWhile is_newline cs of
                           [] \<Rightarrow> None
                         | c2 # cs2 \<Rightarrow> if c2 = CHR ''='' then Some cs2 else None)
                   else Some cs) of
               None \<Rightarrow> None
             | Some r \<Rightarrow> if dropWhile is_newline r = [] then Some (assemble ds, []) else None))"

lemma decodeQuantum_length:
  "decodeQuantum e ds s = Some (out, r) \<Longrightarrow>
     length r \<le> length s \<and> (length ds < 4 \<and> s \<noteq> [] \<longrightarrow> length r < length s)"
proof (induction e ds s rule: decodeQuantum.induct)
  case (2 e ds c cs)
  then show ?case by (auto split: if_splits option.splits list.splits)
qed (auto split: if_splits)

text \<open>\<open>DecodeString\<close>: quantum by quantum until the input is used up.\<close>

function DecodeString :: "b64 \<Rightarrow> string \<Rightarrow> bytes option" where
  "DecodeString e s =
     (if s = [] then Some []
      else case decodeQuantum e [] s of
        None \<Rightarrow> None
      | Some (out, r) \<Rightarrow>
          (case DecodeString e r of None \<Rightarrow> None | Some out' \<Rightarrow> Some (out @ out')))"
  by pat_completeness auto
termination
  by (relation "measure (\<lambda>(e, s). length s)") (auto dest: decodeQuantum_length)

declare DecodeString.simps [simp del]

section \<open>Encoding\<close>

definition EncodedLen :: "b64 \<Rightarrow> nat \<Rightarrow> nat" where
  "EncodedLen e n = (if b_pad e then (n + 2) div 3 * 4 else n div 3 * 4 + (n mod 3 * 8 + 5) div 6)"

fun EncodeToString :: "b64 \<Rightarrow> bytes \<Rightarrow> string" where
  "EncodeToString e [] = []"
| "EncodeToString e [x] =
     [sextet_char e (unat x div 4), sextet_char e (unat x mod 4 * 16)] @ (if b_pad e then ''=='' else '''')"
| "EncodeToString e [x, y] =
     [sextet_char e (unat x div 4), sextet_char e (unat x mod 4 * 16 + unat y div 16),
      sextet_char e (unat y mod 16 * 4)] @ (if b_pad e then ''='' else '''')"
| "EncodeToString e (x # y # z # bs) =
     [sextet_char e (unat x div 4), sextet_char e (unat x mod 4 * 16 + unat y div 16),
      sextet_char e (unat y mod 16 * 4 + unat z div 64), sextet_char e (unat z mod 64)] @ EncodeToString e bs"

section \<open>Round trip\<close>

lemma code_sextet_code: "v < 64 \<Longrightarrow> code_sextet e (sextet_code e v) = Some v \<and> sextet_code e v < 256"
proof -
  assume "v < 64"
  then consider "v < 26" | "26 \<le> v" "v < 52" | "52 \<le> v" "v < 62" | "v = 62" | "v = 63" by linarith
  then show ?thesis
  proof cases
    case 3
    then have "48 \<le> v - 4" "v - 4 \<le> 57" by linarith+
    with 3 show ?thesis by (simp add: code_sextet_def sextet_code_def)
  qed (simp_all add: code_sextet_def sextet_code_def)
qed

lemma sextet_sextet_char: "v < 64 \<Longrightarrow> sextet e (sextet_char e v) = Some v"
proof -
  assume v: "v < 64"
  then have "(of_char (char_of (sextet_code e v)) :: nat) = sextet_code e v"
    using code_sextet_code [OF v, of e] by (simp add: of_char_of)
  then show ?thesis using code_sextet_code [OF v, of e] by (simp only: sextet_def sextet_char_def)
qed

lemma sextet_newline: "is_newline c \<Longrightarrow> sextet e c = None"
  by (auto simp: sextet_def code_sextet_def is_newline_def)

lemma sextet_pad: "sextet e (CHR ''='') = None"
  by (simp add: sextet_def code_sextet_def)

lemma sextet_agree: "sextet e c = Some v \<Longrightarrow> sextet e' c = Some v' \<Longrightarrow> v = v'"
  unfolding sextet_def code_sextet_def by (simp split: if_split_asm)

lemma unat_byte: "unat (x :: byte) < 256"
  by (rule less_le_trans [OF unsigned_less]) simp

lemma quantum_sum:
  fixes x y z p q r s t u :: nat
  assumes "x = 4 * p + q" and "y = 16 * r + s" and "z = 64 * t + u"
  shows "p * 262144 + (q * 16 + r) * 4096 + (s * 4 + t) * 64 + u = x * 65536 + y * 256 + z"
  by (simp add: assms)

lemma assemble_bytes:
  "assemble [unat x div 4, unat x mod 4 * 16 + unat y div 16, unat y mod 16 * 4 + unat z div 64, unat z mod 64]
     = [x, y, z]"
proof -
  let ?v = "unat x div 4 * 262144 + (unat x mod 4 * 16 + unat y div 16) * 4096 +
    (unat y mod 16 * 4 + unat z div 64) * 64 + unat z mod 64"
  have v: "?v = unat x * 65536 + unat y * 256 + unat z" by (rule quantum_sum) simp_all
  have "unat z < 256" "unat y * 256 + unat z < 65536" using unat_byte [of y] unat_byte [of z] by linarith+
  then have d: "?v div 65536 = unat x" "?v div 256 = unat x * 256 + unat y" unfolding v by simp_all
  have "(256 :: byte) = 0" "(65536 :: byte) = 0" by simp_all
  then have "a * 256 = 0" "a * 65536 = 0" for a :: byte by (simp_all only: mult_zero_right)
  then have "(of_nat (?v div 65536) :: byte) = x" "(of_nat (?v div 256) :: byte) = y" "(of_nat ?v :: byte) = z"
    unfolding d unfolding v by simp_all
  then show ?thesis by (simp del: of_nat_add of_nat_mult add: assemble_def Let_def)
qed

lemma assemble_take:
  "assemble [a, b] = take 1 (assemble [a, b, 0, 0])" "assemble [a, b, c] = take 2 (assemble [a, b, c, 0])"
  by (simp_all add: assemble_def Let_def)

lemma assemble_2: "assemble [unat x div 4, unat x mod 4 * 16] = [x]"
  using assemble_bytes [of x 0 0] by (simp add: assemble_take)

lemma assemble_3:
  "assemble [unat x div 4, unat x mod 4 * 16 + unat y div 16, unat y mod 16 * 4] = [x, y]"
  using assemble_bytes [of x y 0] by (simp add: assemble_take)

lemma decodeQuantum_4: "length ds = 4 \<Longrightarrow> decodeQuantum e ds s = Some (assemble ds, s)"
  by (cases s) simp_all

lemma decodeQuantum_sextet:
  "length ds < 4 \<Longrightarrow> v < 64 \<Longrightarrow> decodeQuantum e ds (sextet_char e v # s) = decodeQuantum e (ds @ [v]) s"
  by (simp add: sextet_sextet_char)

lemma sextets_bound:
  "unat (x :: byte) div 4 < 64" "unat (x :: byte) mod 4 * 16 + unat (y :: byte) div 16 < 64"
  "unat (y :: byte) mod 16 * 4 + unat (z :: byte) div 64 < 64" "unat (x :: byte) mod 4 * 16 < 64"
  "unat (x :: byte) mod 16 * 4 < 64"
proof -
  have "unat x mod 4 < 4" "unat x mod 16 < 16" "unat y mod 16 < 16" "unat y div 16 < 16" "unat z div 64 < 4"
    using unat_byte [of y] unat_byte [of z] by (auto intro!: less_mult_imp_div_less)
  then show "unat (x :: byte) mod 4 * 16 + unat (y :: byte) div 16 < 64" "unat (x :: byte) mod 16 * 4 < 64"
    "unat (y :: byte) mod 16 * 4 + unat (z :: byte) div 64 < 64" "unat (x :: byte) mod 4 * 16 < 64" by linarith+
  show "unat (x :: byte) div 4 < 64" using unat_byte [of x] by (auto intro!: less_mult_imp_div_less)
qed

lemma DecodeString_step:
  "s \<noteq> [] \<Longrightarrow> decodeQuantum e [] s = Some (out, r) \<Longrightarrow>
     DecodeString e s = map_option (\<lambda>out'. out @ out') (DecodeString e r)"
  by (simp add: DecodeString.simps [of e s] split: option.splits)

lemma DecodeString_Nil [simp]: "DecodeString e [] = Some []"
  by (simp add: DecodeString.simps)

lemma DecodeString_EncodeToString: "DecodeString e (EncodeToString e bs) = Some bs"
proof (induction e bs rule: EncodeToString.induct)
  case (2 e x)
  have "decodeQuantum e [] (EncodeToString e [x]) = Some ([x], [])"
    using sextets_bound(1,4) [of x]
    by (simp add: decodeQuantum_sextet del: decodeQuantum.simps(2))
      (simp add: sextet_pad is_newline_def assemble_2)
  from DecodeString_step [OF _ this] show ?case by simp
next
  case (3 e x y)
  have "decodeQuantum e [] (EncodeToString e [x, y]) = Some ([x, y], [])"
    using sextets_bound(1) [of x] sextets_bound(2) [of x y] sextets_bound(5) [of y]
    by (simp add: decodeQuantum_sextet del: decodeQuantum.simps(2))
      (simp add: sextet_pad is_newline_def assemble_3)
  from DecodeString_step [OF _ this] show ?case by simp
next
  case (4 e x y z bs)
  have "decodeQuantum e [] (EncodeToString e (x # y # z # bs)) = Some ([x, y, z], EncodeToString e bs)"
    using sextets_bound(1) [of x] sextets_bound(2) [of x y] sextets_bound(3) [of y z]
    by (simp add: decodeQuantum_sextet decodeQuantum_4 assemble_bytes del: decodeQuantum.simps(2))
  from DecodeString_step [OF _ this] 4 show ?case by simp
qed simp

lemma length_EncodeToString: "length (EncodeToString e bs) = EncodedLen e (length bs)"
proof (induction e bs rule: EncodeToString.induct)
  case (4 e x y z bs)
  have "(3 + n + 2) div 3 = Suc ((n + 2) div 3)" "(3 + n) div 3 = Suc (n div 3)" "(3 + n) mod 3 = n mod 3" for n :: nat
    by presburger+
  with 4 show ?case by (simp add: EncodedLen_def)
qed (auto simp: EncodedLen_def)

section \<open>The encodings agree\<close>

lemma decodeQuantum_agree:
  "decodeQuantum e ds s = Some p \<Longrightarrow> decodeQuantum e' ds s = Some p' \<Longrightarrow> p = p'"
proof (induction e ds s arbitrary: p p' rule: decodeQuantum.induct)
  case (1 e ds)
  then show ?case by (simp split: if_splits)
next
  case (2 e ds c cs)
  show ?case
  proof (cases "length ds = 4")
    case True
    with 2 show ?thesis by simp
  next
    case False
    show ?thesis
    proof (cases "sextet e c")
      case None
      show ?thesis
      proof (cases "sextet e' c")
        case None': None
        show ?thesis
        proof (cases "is_newline c")
          case True
          with 2 False None None' show ?thesis by simp
        next
          case nn: False
          with 2(3,4) False None None' show ?thesis by (auto split: if_splits option.splits)
        qed
      next
        case (Some v')
        then have "\<not> is_newline c" "c \<noteq> CHR ''=''" using sextet_newline [of c e'] sextet_pad [of e'] by auto
        with 2(3) False None show ?thesis by (simp split: if_splits)
      qed
    next
      case (Some v)
      then have "\<not> is_newline c" "c \<noteq> CHR ''=''" using sextet_newline [of c e] sextet_pad [of e] by auto
      with 2(4) False obtain v' where v': "sextet e' c = Some v'" by (cases "sextet e' c") auto
      with sextet_agree [OF Some v'] 2 False Some show ?thesis by simp
    qed
  qed
qed

lemma DecodeString_agree:
  "DecodeString e s = Some out \<Longrightarrow> DecodeString e' s = Some out' \<Longrightarrow> out = out'"
proof (induction e s arbitrary: out out' rule: DecodeString.induct)
  case (1 e s)
  show ?case
  proof (cases "s = []")
    case True
    with 1 show ?thesis by simp
  next
    case False
    with 1(2) obtain o1 r1 where q: "decodeQuantum e [] s = Some (o1, r1)"
      by (auto simp: DecodeString.simps [of e s] split: option.splits)
    from False 1(3) obtain o2 r2 where q': "decodeQuantum e' [] s = Some (o2, r2)"
      by (auto simp: DecodeString.simps [of e' s] split: option.splits)
    from decodeQuantum_agree [OF q q'] have eq: "o2 = o1" "r2 = r1" by simp_all
    from 1(1) [OF False q refl] 1(2,3) show ?thesis
      unfolding DecodeString_step [OF False q] DecodeString_step [OF False q' [unfolded eq]] by auto
  qed
qed

section \<open>Size\<close>

lemma length_assemble: "4 * length (assemble ds) \<le> 3 * length ds"
  by (simp add: assemble_def Let_def)

lemma decodeQuantum_size:
  "decodeQuantum e ds s = Some (out, r) \<Longrightarrow> 4 * length out + 3 * length r \<le> 3 * (length ds + length s)"
proof (induction e ds s rule: decodeQuantum.induct)
  case (1 e ds)
  then show ?case using length_assemble [of ds] by (auto split: if_splits)
next
  case (2 e ds c cs)
  then show ?case using length_assemble [of ds]
    by (cases "length ds = 4"; cases "sextet e c"; cases "is_newline c") (auto split: if_splits option.splits)
qed

lemma DecodeString_size: "DecodeString e s = Some out \<Longrightarrow> 4 * length out \<le> 3 * length s"
proof (induction e s arbitrary: out rule: DecodeString.induct)
  case (1 e s)
  show ?case
  proof (cases "s = []")
    case True
    with 1 show ?thesis by simp
  next
    case False
    with 1(2) obtain o1 r1 where q: "decodeQuantum e [] s = Some (o1, r1)"
      by (auto simp: DecodeString.simps [of e s] split: option.splits)
    with 1(2) obtain o2 where o2: "DecodeString e r1 = Some o2" "out = o1 @ o2"
      unfolding DecodeString_step [OF False q] by auto
    from 1(1) [OF False q refl o2(1)] decodeQuantum_size [OF q] o2(2) show ?thesis by simp
  qed
qed

end
