(* ===== verification/Handler.thy ===== *)
theory Handler
  imports Responder Base64
begin

text \<open>
  \<open>internal/server/handler.go\<close>: the HTTP face of the responder.  \<open>ServeOCSP\<close> reads the DER request from
  the body or the path, calls \<open>Handle\<close> and writes the response; \<open>ServeHealth\<close> reports on signer and
  source.  \<open>ocsp.ParseResponse\<close>, used only to label a metric, is a parameter.
\<close>

section \<open>Requests and responses\<close>

text \<open>The body is what a reader would get before it ends, or fails (the flag).\<close>

record http_request =
  q_Method :: string
  q_body :: "bytes \<times> bool"
  q_request :: string

record health_payload =
  hp_status :: string
  hp_signer_valid :: bool
  hp_signer_expires_in_days :: int
  hp_signer_expiry_status :: string
  hp_source :: string
  hp_source_healthy :: bool

datatype response_body =
    NoBody
  | TextBody string
  | DERBody bytes
  | JSONBody health_payload

record http_response =
  w_code :: nat
  w_headers :: "(string \<times> string) list"
  w_body :: response_body

datatype handler_log =
    BodyReadFailed
  | RequestTooLarge nat
  | GetDecodingFailed
  | HandlingFailed string responder_error

datatype decode_error =
    EmptyGetRequest
  | GetRequestTooLong
  | GetRequestNotBase64

section \<open>Limits and decoding\<close>

definition maxOCSPRequestSize :: nat where
  "maxOCSPRequestSize = 10 * 1024"

definition maxOCSPGetRequestSize :: nat where
  "maxOCSPGetRequestSize = EncodedLen StdEncoding maxOCSPRequestSize"

definition ocspGetEncodings :: "b64 list" where
  "ocspGetEncodings = [StdEncoding, RawStdEncoding, URLEncoding, RawURLEncoding]"

fun first_decoding :: "b64 list \<Rightarrow> string \<Rightarrow> bytes option" where
  "first_decoding [] enc = None"
| "first_decoding (e # es) enc =
     (case DecodeString e enc of Some der \<Rightarrow> Some der | None \<Rightarrow> first_decoding es enc)"

definition decodeOCSPGetRequest :: "string \<Rightarrow> decode_error + bytes" where
  "decodeOCSPGetRequest enc =
     (if enc = '''' then Inl EmptyGetRequest
      else if length enc > maxOCSPGetRequestSize then Inl GetRequestTooLong
      else case first_decoding ocspGetEncodings enc of
             Some der \<Rightarrow> Inr der
           | None \<Rightarrow> Inl GetRequestNotBase64)"

text \<open>\<open>io.ReadAll(io.LimitReader(body, n))\<close>: at most \<open>n\<close> bytes, an error only when it comes before them.\<close>

definition ReadAll_limited :: "nat \<Rightarrow> bytes \<times> bool \<Rightarrow> bytes option" where
  "ReadAll_limited n body =
     (case body of (bs, failed) \<Rightarrow>
        if n \<le> length bs then Some (take n bs) else if failed then None else Some bs)"

section \<open>The response writer\<close>

definition http_Error :: "(string \<times> string) list \<Rightarrow> string \<Rightarrow> nat \<Rightarrow> http_response" where
  "http_Error headers msg code =
     \<lparr>w_code = code,
      w_headers = AList.update ''X-Content-Type-Options'' ''nosniff''
        (AList.update ''Content-Type'' ''text/plain; charset=utf-8'' (AList.delete ''Content-Length'' headers)),
      w_body = TextBody (msg @ [CHR 0x0A])\<rparr>"

definition max_age :: "Duration \<Rightarrow> string" where
  "max_age cacheTTL = ''max-age='' @ big_String (trunc_rat (Duration_Seconds cacheTTL))"

definition parseOCSPStatus :: "(bytes \<Rightarrow> int option) \<Rightarrow> bytes \<Rightarrow> string" where
  "parseOCSPStatus parseResp der =
     (case parseResp der of
        None \<Rightarrow> ''error''
      | Some st \<Rightarrow>
          if st = xocsp_Good then ''good'' else if st = xocsp_Revoked then ''revoked'' else ''unknown'')"

section \<open>ServeOCSP\<close>

text \<open>
  What the request carries: the DER bytes and the headers already set, or the response that refuses it
  with its log line.
\<close>

definition read_request ::
  "Duration \<Rightarrow> http_request \<Rightarrow> http_response \<times> handler_log list + bytes \<times> (string \<times> string) list" where
  "read_request cacheTTL req =
     (if q_Method req = ''POST'' then
        (case ReadAll_limited (maxOCSPRequestSize + 1) (q_body req) of
           None \<Rightarrow> Inl (http_Error [] ''failed to read body'' 500, [BodyReadFailed])
         | Some body \<Rightarrow>
             if length body > maxOCSPRequestSize
             then Inl (http_Error [] ''request too large'' 413, [RequestTooLarge (length body)])
             else Inr (body, []))
      else if q_Method req = ''GET'' then
        (case decodeOCSPGetRequest (q_request req) of
           Inl err \<Rightarrow> Inl (http_Error [] ''malformed request'' 400, [GetDecodingFailed])
         | Inr b \<Rightarrow> Inr (b, [(''Cache-Control'', max_age cacheTTL)]))
      else Inl (\<lparr>w_code = 405, w_headers = [], w_body = NoBody\<rparr>, []))"

definition ServeOCSP ::
  "responder_lib \<Rightarrow> (bytes \<Rightarrow> int option) \<Rightarrow> Duration \<Rightarrow> bool \<Rightarrow> 'e handle_env \<Rightarrow> Time \<Rightarrow> Time \<Rightarrow> http_request
     \<Rightarrow> ('e, 's, 'g) Responder
     \<Rightarrow> http_response \<times> ('e, 's, 'g) Responder \<times> metric_call list \<times> ocsp_log list \<times> handler_log list" where
  "ServeOCSP x parseResp cacheTTL metrics he start fin req r =
     (let meth = ToLower (q_Method req) in
      case read_request cacheTTL req of
        Inl (resp, logs) \<Rightarrow> (resp, r, [], [], logs)
      | Inr (requestDER, headers) \<Rightarrow>
          (let (res, r', ms, ls) = Handle x he requestDER r;
               duration = Time_Sub fin start
           in case res of
                Inl err \<Rightarrow>
                  (http_Error headers ''malformed request'' 400, r',
                   ms @ (if metrics then [RecordRequest meth ''error'' duration] else []), ls,
                   [HandlingFailed meth err])
              | Inr respDER \<Rightarrow>
                  (\<lparr>w_code = 200, w_headers = AList.update ''Content-Type'' ''application/ocsp-response'' headers,
                    w_body = DERBody respDER\<rparr>, r',
                   ms @ (if metrics then [RecordRequest meth (parseOCSPStatus parseResp respDER) duration] else []),
                   ls, [])))"

section \<open>ServeHealth\<close>

text \<open>
  The instants at which the calls of one health check read the clock, in order.  The source may change
  between the call for the payload (\<open>src1\<close>) and the call for the decision (\<open>src2\<close>): reloads and other
  lookups run concurrently.
\<close>

record health_env =
  hv_valid1 :: Time
  hv_days :: Time
  hv_expiry :: Time
  hv_healthy1 :: Time
  hv_valid2 :: Time
  hv_healthy2 :: Time

definition ServeHealth :: "health_env \<Rightarrow> Signer \<Rightarrow> ('e, 's) Source \<Rightarrow> 's \<Rightarrow> 's \<Rightarrow> http_response" where
  "ServeHealth hv sg ops src1 src2 =
     (let payload = \<lparr>hp_status = ''ok'', hp_signer_valid = Signer_Valid (hv_valid1 hv) sg,
            hp_signer_expires_in_days = DaysUntilExpiry (hv_days hv) sg,
            hp_signer_expiry_status = ExpiryStatusString (GetExpiryStatus (hv_expiry hv) sg),
            hp_source = Name ops src1, hp_source_healthy = Healthy ops (hv_healthy1 hv) src1\<rparr>;
          bad = (\<not> Signer_Valid (hv_valid2 hv) sg \<or> \<not> Healthy ops (hv_healthy2 hv) src2)
      in \<lparr>w_code = (if bad then 503 else 200), w_headers = [(''Content-Type'', ''application/json'')],
          w_body = JSONBody (if bad then payload\<lparr>hp_status := ''unhealthy''\<rparr> else payload)\<rparr>)"

section \<open>Facts about decoding\<close>

lemma maxOCSPGetRequestSize_eq: "maxOCSPGetRequestSize = 13656"
  by (simp add: maxOCSPGetRequestSize_def maxOCSPRequestSize_def EncodedLen_def StdEncoding_def)

lemma first_decoding_iff:
  "first_decoding es s = Some der \<longleftrightarrow> (\<exists>e \<in> set es. DecodeString e s = Some der)"
proof (induction es)
  case (Cons e es)
  show ?case
  proof (cases "DecodeString e s")
    case None
    with Cons show ?thesis by simp
  next
    case (Some d)
    have "d = der" if "DecodeString e' s = Some der" for e' using DecodeString_agree [OF Some that] .
    with Some show ?thesis by auto
  qed
qed simp

lemma decodeOCSPGetRequest_Inr:
  "decodeOCSPGetRequest s = Inr der \<longleftrightarrow>
     s \<noteq> [] \<and> length s \<le> 13656 \<and> (\<exists>e \<in> set ocspGetEncodings. DecodeString e s = Some der)"
  by (auto simp: decodeOCSPGetRequest_def maxOCSPGetRequestSize_eq first_decoding_iff [symmetric]
      split: option.splits)

lemma EncodedLen_le:
  assumes "n \<le> 10240"
  shows "EncodedLen e n \<le> 13656"
proof -
  consider q where "n = 3 * q" | q where "n = 3 * q + 1" | q where "n = 3 * q + 2"
    by (metis (no_types) add_0_right mod_less_divisor mult_div_mod_eq One_nat_def less_Suc_eq less_one numeral_2_eq_2
        numeral_3_eq_3 zero_less_Suc)
  then show ?thesis using assms by cases (auto simp: EncodedLen_def)
qed

lemma EncodeToString_eq_Nil: "EncodeToString e bs = [] \<longleftrightarrow> bs = []"
  by (cases "(e, bs)" rule: EncodeToString.cases) auto

lemma decode_encoded:
  assumes "bs \<noteq> []" and "length bs \<le> maxOCSPRequestSize" and "e \<in> set ocspGetEncodings"
  shows "decodeOCSPGetRequest (EncodeToString e bs) = Inr bs"
proof -
  have "length (EncodeToString e bs) \<le> 13656"
    using assms(2) by (simp add: length_EncodeToString EncodedLen_le maxOCSPRequestSize_def)
  with assms show ?thesis
    unfolding decodeOCSPGetRequest_Inr EncodeToString_eq_Nil by (blast intro: DecodeString_EncodeToString)
qed

section \<open>Facts about responses\<close>

text \<open>A plain-text answer: code, text and the headers set before, with the three that \<open>http.Error\<close> deals with.\<close>

definition text_answer :: "nat \<Rightarrow> string \<Rightarrow> (string \<rightharpoonup> string) \<Rightarrow> http_response \<Rightarrow> bool" where
  "text_answer code msg headers resp \<longleftrightarrow>
     w_code resp = code \<and> w_body resp = TextBody (msg @ [CHR 0x0A]) \<and>
     map_of (w_headers resp) =
       headers(''Content-Type'' \<mapsto> ''text/plain; charset=utf-8'', ''X-Content-Type-Options'' \<mapsto> ''nosniff'')"

lemma text_answer_error:
  "text_answer code msg Map.empty (http_Error [] msg code)"
  "text_answer code msg [''Cache-Control'' \<mapsto> v] (http_Error [(''Cache-Control'', v)] msg code)"
  by (simp_all add: text_answer_def http_Error_def update_conv' fun_upd_twist)

lemma ToLower_methods: "ToLower ''POST'' = ''post''" "ToLower ''GET'' = ''get''"
  by code_simp+

text \<open>What \<open>ServeOCSP\<close> makes of the result of \<open>Handle\<close>.\<close>

definition handled ::
  "(bytes \<Rightarrow> int option) \<Rightarrow> bool \<Rightarrow> Duration \<Rightarrow> string \<Rightarrow> (string \<rightharpoonup> string) \<Rightarrow>
     (responder_error + bytes) \<times> ('e, 's, 'g) Responder \<times> metric_call list \<times> ocsp_log list \<Rightarrow>
     http_response \<times> ('e, 's, 'g) Responder \<times> metric_call list \<times> ocsp_log list \<times> handler_log list \<Rightarrow> bool" where
  "handled parseResp metrics dur meth headers res out \<longleftrightarrow>
     (case out of (resp, r', ms, ls, hl) \<Rightarrow>
        (case res of
           (Inr d, r2, ms2, ls2) \<Rightarrow>
             w_code resp = 200 \<and> w_body resp = DERBody d \<and>
             map_of (w_headers resp) = headers(''Content-Type'' \<mapsto> ''application/ocsp-response'') \<and>
             hl = [] \<and> r' = r2 \<and> ls = ls2 \<and>
             ms = ms2 @ (if metrics then [RecordRequest meth
               (case parseResp d of None \<Rightarrow> ''error''
                | Some st \<Rightarrow> if st = 0 then ''good'' else if st = 1 then ''revoked'' else ''unknown'') dur] else [])
         | (Inl err, r2, ms2, ls2) \<Rightarrow>
             text_answer 400 ''malformed request'' headers resp \<and> hl = [HandlingFailed meth err] \<and> r' = r2 \<and> ls = ls2 \<and>
             ms = ms2 @ (if metrics then [RecordRequest meth ''error'' dur] else [])))"

lemma ServeOCSP_handled:
  assumes "ServeOCSP x parseResp ttl metrics he start fin req r = out" and "read_request ttl req = Inr (der, h)"
  shows "handled parseResp metrics (Time_Sub fin start) (ToLower (q_Method req)) (map_of h) (Handle x he der r) out"
proof -
  have h: "h = [] \<or> (\<exists>v. h = [(''Cache-Control'', v)])"
    using assms(2) by (auto simp: read_request_def split: if_splits option.splits sum.splits)
  obtain res r2 ms2 ls2 where res: "Handle x he der r = (res, r2, ms2, ls2)" by (metis prod_cases4)
  have status: "parseOCSPStatus parseResp d = (case parseResp d of None \<Rightarrow> ''error''
      | Some st \<Rightarrow> if st = 0 then ''good'' else if st = 1 then ''revoked'' else ''unknown'')" for d
    by (simp add: parseOCSPStatus_def xocsp_Good_def xocsp_Revoked_def split: option.split)
  show ?thesis
  proof (cases res)
    case (Inl err)
    then have "out = (http_Error h ''malformed request'' 400, r2,
        ms2 @ (if metrics then [RecordRequest (ToLower (q_Method req)) ''error'' (Time_Sub fin start)] else []), ls2,
        [HandlingFailed (ToLower (q_Method req)) err])"
      using assms res by (auto simp: ServeOCSP_def Let_def)
    with Inl h text_answer_error show ?thesis by (auto simp: handled_def res)
  next
    case (Inr d)
    then have "out = (\<lparr>w_code = 200, w_headers = AList.update ''Content-Type'' ''application/ocsp-response'' h, w_body = DERBody d\<rparr>,
        r2, ms2 @ (if metrics then [RecordRequest (ToLower (q_Method req)) (parseOCSPStatus parseResp d) (Time_Sub fin start)] else []),
        ls2, [])"
      using assms res by (auto simp: ServeOCSP_def Let_def)
    with Inr show ?thesis by (simp add: handled_def res status update_conv')
  qed
qed

section \<open>Properties\<close>

text \<open>
  C22: a GET request is accepted exactly when its path segment is non-empty, at most 13656 characters
  long and valid in one of the four base64 encodings; the result is then the decoding in every
  encoding that accepts it, so trying them in turn is unambiguous.
\<close>
theorem GET_decoding:
  "decodeOCSPGetRequest s = Inr der \<longleftrightarrow>
     s \<noteq> [] \<and> length s \<le> 13656 \<and> (\<exists>e \<in> set ocspGetEncodings. DecodeString e s = Some der)"
  by (rule decodeOCSPGetRequest_Inr)

text \<open>
  C21: any base64 form of a non-empty request of at most 10 KB, padded or not, in either alphabet, is
  decoded to that request.
\<close>
theorem GET_roundtrip:
  assumes "bs \<noteq> []" and "length bs \<le> maxOCSPRequestSize" and "e \<in> set ocspGetEncodings"
  shows "decodeOCSPGetRequest (EncodeToString e bs) = Inr bs"
  by (rule decode_encoded [OF assms])

text \<open>
  C28: the two methods bound the DER they pass on: a POST body of more than 10240 bytes is refused with
  413, and the GET limit admits at most 10242 bytes; that bound is reached, so GET accepts requests
  that POST refuses.
\<close>
theorem request_size_bounds:
  "(case read_request ttl req of
      Inl _ \<Rightarrow> True
    | Inr (der, _) \<Rightarrow> length der \<le> (if q_Method req = ''POST'' then maxOCSPRequestSize else maxOCSPRequestSize + 2)) \<and>
   (\<exists>s der. decodeOCSPGetRequest s = Inr der \<and> length der = maxOCSPRequestSize + 2)"
proof
  have get: "decodeOCSPGetRequest s = Inr der \<Longrightarrow> length der \<le> 10242" for s der
    by (auto simp: decodeOCSPGetRequest_Inr dest!: DecodeString_size)
  then show "case read_request ttl req of
      Inl _ \<Rightarrow> True
    | Inr (der, _) \<Rightarrow> length der \<le> (if q_Method req = ''POST'' then maxOCSPRequestSize else maxOCSPRequestSize + 2)"
    by (auto simp: read_request_def maxOCSPRequestSize_def split: option.splits sum.splits)
  let ?bs = "replicate 10242 0 :: bytes"
  have "length (EncodeToString RawStdEncoding ?bs) = 13656"
    by (simp add: length_EncodeToString EncodedLen_def RawStdEncoding_def)
  moreover from this have "EncodeToString RawStdEncoding ?bs \<noteq> []" by auto
  ultimately have "decodeOCSPGetRequest (EncodeToString RawStdEncoding ?bs) = Inr ?bs"
    by (auto simp: decodeOCSPGetRequest_Inr ocspGetEncodings_def DecodeString_EncodeToString)
  then show "\<exists>s der. decodeOCSPGetRequest s = Inr der \<and> length der = maxOCSPRequestSize + 2"
    by (intro exI) (auto simp: maxOCSPRequestSize_def)
qed

text \<open>
  C20: the outcome of \<open>ServeOCSP\<close>, on every branch, with code, body, headers, log lines, telemetry and
  effect on the responder.  Another method than POST and GET is refused with an empty 405; a POST body of
  more than 10240 bytes with 413, one that breaks off before with 500, and a GET segment that does not
  decode with 400, each with its text and one log line, before anything is counted or looked up.  Every
  other request goes through \<open>Handle\<close> once and is counted once: 200 with the signed bytes, or 400 for
  any error.  A GET request gets \<open>Cache-Control\<close> in both cases, POST in none.
\<close>
theorem ServeOCSP_outcome:
  assumes "ServeOCSP x parseResp ttl metrics he start fin req r = (resp, r', ms, ls, hl)"
  shows "if q_Method req \<noteq> ''POST'' \<and> q_Method req \<noteq> ''GET'' then
        resp = \<lparr>w_code = 405, w_headers = [], w_body = NoBody\<rparr> \<and> hl = [] \<and> r' = r \<and> ms = [] \<and> ls = []
      else if q_Method req = ''POST'' \<and> 10240 < length (fst (q_body req)) then
        text_answer 413 ''request too large'' Map.empty resp \<and> hl = [RequestTooLarge 10241] \<and> r' = r \<and> ms = [] \<and> ls = []
      else if q_Method req = ''POST'' \<and> snd (q_body req) then
        text_answer 500 ''failed to read body'' Map.empty resp \<and> hl = [BodyReadFailed] \<and> r' = r \<and> ms = [] \<and> ls = []
      else if q_Method req = ''GET'' \<and> (\<forall>der. decodeOCSPGetRequest (q_request req) \<noteq> Inr der) then
        text_answer 400 ''malformed request'' Map.empty resp \<and> hl = [GetDecodingFailed] \<and> r' = r \<and> ms = [] \<and> ls = []
      else \<exists>der headers meth.
        (if q_Method req = ''POST'' then der = fst (q_body req) \<and> headers = Map.empty \<and> meth = ''post''
         else decodeOCSPGetRequest (q_request req) = Inr der \<and> headers = [''Cache-Control'' \<mapsto> max_age ttl] \<and> meth = ''get'') \<and>
        (case Handle x he der r of
           (Inr d, r2, ms2, ls2) \<Rightarrow>
             w_code resp = 200 \<and> w_body resp = DERBody d \<and>
             map_of (w_headers resp) = headers(''Content-Type'' \<mapsto> ''application/ocsp-response'') \<and>
             hl = [] \<and> r' = r2 \<and> ls = ls2 \<and>
             ms = ms2 @ (if metrics then [RecordRequest meth
               (case parseResp d of None \<Rightarrow> ''error''
                | Some st \<Rightarrow> if st = 0 then ''good'' else if st = 1 then ''revoked'' else ''unknown'') (Time_Sub fin start)] else [])
         | (Inl err, r2, ms2, ls2) \<Rightarrow>
             text_answer 400 ''malformed request'' headers resp \<and> hl = [HandlingFailed meth err] \<and> r' = r2 \<and> ls = ls2 \<and>
             ms = ms2 @ (if metrics then [RecordRequest meth ''error'' (Time_Sub fin start)] else []))"
proof -
  consider (other) "q_Method req \<noteq> ''POST''" "q_Method req \<noteq> ''GET''"
    | (large) "q_Method req = ''POST''" "10240 < length (fst (q_body req))"
    | (broken) "q_Method req = ''POST''" "\<not> 10240 < length (fst (q_body req))" "snd (q_body req)"
    | (post) "q_Method req = ''POST''" "\<not> 10240 < length (fst (q_body req))" "\<not> snd (q_body req)"
    | (get) "q_Method req = ''GET''" by blast
  then show ?thesis
  proof cases
    case other
    with assms show ?thesis by (simp add: ServeOCSP_def read_request_def)
  next
    case large
    then have "read_request ttl req = Inl (http_Error [] ''request too large'' 413, [RequestTooLarge 10241])"
      by (cases "q_body req") (simp add: read_request_def ReadAll_limited_def maxOCSPRequestSize_def)
    with assms large show ?thesis by (auto simp: ServeOCSP_def text_answer_error)
  next
    case broken
    then have "read_request ttl req = Inl (http_Error [] ''failed to read body'' 500, [BodyReadFailed])"
      by (cases "q_body req") (simp add: read_request_def ReadAll_limited_def maxOCSPRequestSize_def)
    with assms broken show ?thesis by (auto simp: ServeOCSP_def text_answer_error)
  next
    case post
    then have "read_request ttl req = Inr (fst (q_body req), [])"
      by (cases "q_body req") (simp add: read_request_def ReadAll_limited_def maxOCSPRequestSize_def)
    note h = ServeOCSP_handled [OF assms this]
    from post h show ?thesis by (simp add: ToLower_methods handled_def)
  next
    case get
    show ?thesis
    proof (cases "decodeOCSPGetRequest (q_request req)")
      case (Inl err)
      with get have "read_request ttl req = Inl (http_Error [] ''malformed request'' 400, [GetDecodingFailed])"
        by (simp add: read_request_def)
      with assms get Inl show ?thesis by (auto simp: ServeOCSP_def text_answer_error)
    next
      case (Inr der)
      with get have "read_request ttl req = Inr (der, [(''Cache-Control'', max_age ttl)])" by (simp add: read_request_def)
      note h = ServeOCSP_handled [OF assms this]
      from get Inr h show ?thesis by (simp add: ToLower_methods handled_def)
    qed
  qed
qed

text \<open>
  C29: every GET request whose path segment decodes gets \<open>Cache-Control: max-age\<close> with the whole cache
  TTL, in seconds, whatever the outcome: also when \<open>Handle\<close> fails and the answer is a 400.  The number
  is the TTL rounded down to seconds; in the last millisecond of a second the binary64 quotient may
  make it one more.
\<close>
theorem GET_max_age_on_every_outcome:
  assumes "q_Method req = ''GET''" and "decodeOCSPGetRequest (q_request req) = Inr der" and "in_int64 ttl" and "0 \<le> ttl"
    and "ServeOCSP x parseResp ttl metrics he start fin req r = (resp, r', ms, ls, hl)"
  shows "\<exists>n. map_of (w_headers resp) ''Cache-Control'' = Some (''max-age='' @ big_String n) \<and>
      ttl div Second \<le> n \<and> n \<le> ttl div Second + 1 \<and>
      (ttl mod Second + Millisecond \<le> Second \<longrightarrow> n = ttl div Second) \<and> w_code resp \<in> {200, 400}"
proof -
  from assms(1,2,5) have "map_of (w_headers resp) ''Cache-Control'' = Some (max_age ttl) \<and> w_code resp \<in> {200, 400}"
    by (auto simp: ServeOCSP_def read_request_def http_Error_def Let_def split: prod.splits sum.splits)
  moreover have "max_age ttl = ''max-age='' @ big_String \<lfloor>Duration_Seconds ttl\<rfloor>"
    using f64.floor_seconds(3) [OF assms(3,4)] by (simp add: max_age_def trunc_rat_def Duration_Seconds_def)
  ultimately show ?thesis
    using f64.floor_seconds(1,2,4) [OF assms(3,4)] by (intro exI [of _ "\<lfloor>Duration_Seconds ttl\<rfloor>"]) (simp add: Duration_Seconds_def)
qed

text \<open>
  C27: \<open>/health\<close> answers 200 with status \<open>ok\<close> exactly when the signing certificate is strictly inside its
  validity period and the source is healthy at the two decisive calls, and 503 with status \<open>unhealthy\<close>
  otherwise.  The other fields are what the earlier calls returned; when nothing changed in between,
  the two flags explain the code.
\<close>
theorem health_code:
  "let resp = ServeHealth hv sg ops src1 src2;
       valid = (\<lambda>t. NotBefore (sg_cert sg) < t \<and> t < NotAfter (sg_cert sg))
   in (w_code resp = 200 \<longleftrightarrow> valid (hv_valid2 hv) \<and> Healthy ops (hv_healthy2 hv) src2) \<and>
      w_code resp \<in> {200, 503} \<and> w_headers resp = [(''Content-Type'', ''application/json'')] \<and>
      (\<exists>p. w_body resp = JSONBody p \<and>
         hp_status p = (if w_code resp = 200 then ''ok'' else ''unhealthy'') \<and>
         hp_signer_valid p = valid (hv_valid1 hv) \<and>
         hp_signer_expires_in_days p = DaysUntilExpiry (hv_days hv) sg \<and>
         hp_signer_expiry_status p = ExpiryStatusString (GetExpiryStatus (hv_expiry hv) sg) \<and>
         hp_source p = Name ops src1 \<and> hp_source_healthy p = Healthy ops (hv_healthy1 hv) src1 \<and>
         (if hv_valid1 hv = hv_valid2 hv \<and> hv_healthy1 hv = hv_healthy2 hv \<and> src1 = src2
          then w_code resp = (if hp_signer_valid p \<and> hp_source_healthy p then 200 else 503)
          else True))"
  by (auto simp: ServeHealth_def Signer_Valid_def After_def Before_def Let_def)

section \<open>Witnesses\<close>

theorem GET_roundtrip_witness:
  "decodeOCSPGetRequest (EncodeToString URLEncoding [255, 239, 7]) = Inr [255, 239, 7]"
  by (rule GET_roundtrip) (simp_all add: maxOCSPRequestSize_def ocspGetEncodings_def)

definition ex_post :: http_request where
  "ex_post = \<lparr>q_Method = ''POST'', q_body = ([7, 5], False), q_request = ''''\<rparr>"

definition ex_get :: http_request where
  "ex_get = \<lparr>q_Method = ''GET'', q_body = ([], False), q_request = EncodeToString StdEncoding [6, 5]\<rparr>"

definition ex_parse :: "bytes \<Rightarrow> int option" where
  "ex_parse der = (case der of b # _ \<Rightarrow> Some (uint b) | [] \<Rightarrow> None)"

text \<open>A POST for serial 5 under the right issuer, and a GET for the wrong one.\<close>

theorem ServeOCSP_outcome_witness:
  "w_code (fst (ServeOCSP ex_rlib ex_parse Hour True ex_handle_env 0 1 ex_post ex_responder)) = 200 \<and>
   w_body (fst (ServeOCSP ex_rlib ex_parse Hour True ex_handle_env 0 1 ex_post ex_responder)) = DERBody [0, 5] \<and>
   text_answer 413 ''request too large'' Map.empty
     (fst (ServeOCSP ex_rlib ex_parse Hour True ex_handle_env 0 1 (ex_post\<lparr>q_body := (replicate 10241 7, True)\<rparr>) ex_responder))"
proof -
  have h: "fst (Handle ex_rlib ex_handle_env [7, 5] ex_responder) = Inr [0, 5]" by code_simp
  obtain resp r' ms ls hl
    where eq: "ServeOCSP ex_rlib ex_parse Hour True ex_handle_env 0 1 ex_post ex_responder = (resp, r', ms, ls, hl)"
    by (metis prod_cases5)
  let ?big = "ex_post\<lparr>q_body := (replicate 10241 7, True)\<rparr>"
  obtain resp2 r2 ms2 ls2 hl2
    where eq2: "ServeOCSP ex_rlib ex_parse Hour True ex_handle_env 0 1 ?big ex_responder = (resp2, r2, ms2, ls2, hl2)"
    by (metis prod_cases5)
  have "q_Method ex_post = ''POST''" "q_body ex_post = ([7, 5], False)" by (simp_all add: ex_post_def)
  with ServeOCSP_outcome [OF eq] h have "w_code resp = 200 \<and> w_body resp = DERBody [0, 5]"
    by (simp split: prod.splits)
  moreover from \<open>q_Method ex_post = ''POST''\<close> ServeOCSP_outcome [OF eq2]
  have "text_answer 413 ''request too large'' Map.empty resp2" by simp
  ultimately show ?thesis by (simp add: eq eq2)
qed

theorem GET_max_age_on_every_outcome_witness:
  "w_code (fst (ServeOCSP ex_rlib ex_parse Hour True ex_handle_env 0 1 ex_get ex_responder)) = 400 \<and>
   map_of (w_headers (fst (ServeOCSP ex_rlib ex_parse Hour True ex_handle_env 0 1 ex_get ex_responder))) ''Cache-Control''
     = Some ''max-age=3600''"
proof -
  have d: "decodeOCSPGetRequest (q_request ex_get) = Inr [6, 5]"
    by (simp add: ex_get_def decode_encoded maxOCSPRequestSize_def ocspGetEncodings_def del: EncodeToString.simps)
  have h: "fst (Handle ex_rlib ex_handle_env [6, 5] ex_responder) = Inl (RespBinding NameHashMismatch)" by code_simp
  have m: "q_Method ex_get = ''GET''" by (simp add: ex_get_def)
  have c: "w_code (fst (ServeOCSP ex_rlib ex_parse Hour True ex_handle_env 0 1 ex_get ex_responder)) = 400"
    using d m h by (auto simp: ServeOCSP_def read_request_def http_Error_def Let_def split: prod.splits)
  obtain resp r' ms ls hl
    where eq: "ServeOCSP ex_rlib ex_parse Hour True ex_handle_env 0 1 ex_get ex_responder = (resp, r', ms, ls, hl)"
    by (metis prod_cases5)
  have "in_int64 Hour" by (simp add: in_int64_def)
  from GET_max_age_on_every_outcome [OF m d this _ eq]
  have "map_of (w_headers resp) ''Cache-Control'' = Some (''max-age='' @ big_String 3600)" by simp
  moreover have "big_String 3600 = ''3600''" by code_simp
  ultimately show ?thesis using c by (simp add: eq)
qed

end
