(* ===== verification/FileSource.thy ===== *)
theory FileSource
  imports SourceTypes
begin

text \<open>
  \<open>internal/source/file.go\<close>: the CRL-backed source.  The library functions it calls on CRL bytes
  (SHA-256, PEM and DER parsing, signature verification) are the record \<open>crl_lib\<close>; file and URL reads
  are the record \<open>crl_io\<close>, sampled at each load.  Log lines are returned as data, because reporting a
  change of state exactly once is part of what the code does.  The mutexes make each read or write
  of the generation (\<open>revoked\<close>, \<open>thisUpdate\<close>, \<open>nextUpdate\<close>) one atomic step; theory
  \<open>FileSourceConc\<close> interleaves those steps.
\<close>

section \<open>CRLs and the libraries that read them\<close>

record Extension =
  ext_Id :: "int list"
  ext_Value :: bytes

record RevokedCertificate =
  rc_SerialNumber :: int
  rc_RevocationTime :: Time
  rc_Extensions :: "Extension list"

record RevocationList =
  rl_RawIssuer :: bytes
  rl_Entries :: "RevokedCertificate list"
  rl_ThisUpdate :: Time
  rl_NextUpdate :: Time

record crl_lib =
  Sum256 :: "bytes \<Rightarrow> bytes"
  pem_Decode :: "bytes \<Rightarrow> bytes option"
  ParseRevocationList :: "bytes \<Rightarrow> RevocationList option"
  crl_CheckSignatureFrom :: "RevocationList \<Rightarrow> Certificate \<Rightarrow> bool"

datatype http_get = GetFailed | GetResponse nat "bytes option"

record crl_io =
  io_ReadFile :: "string \<Rightarrow> bytes option"
  io_Get :: "string \<Rightarrow> http_get"

section \<open>State\<close>

record FileSource =
  fs_crlPath :: string
  fs_reloadInterval :: Duration
  fs_issuerCert :: Certificate
  fs_isURL :: bool
  fs_revoked :: "string \<rightharpoonup> RevokedCertificate"
  fs_thisUpdate :: Time
  fs_nextUpdate :: Time
  fs_loaded :: bool
  fs_expiredLogged :: bool
  fs_lastHash :: bytes
  fs_expiryGrace :: Duration

datatype fs_log =
    LogNotYetValid string Time
  | LogExpired string Time Duration
  | LogValidAgain string
  | LogUnhealthy string source_error
  | LogStillUnhealthy string source_error

text \<open>The logger given by \<open>WithLogger\<close> only decides where the lines go.\<close>

datatype FileSourceOption = WithCRLExpiryGrace Duration | WithLogger

fun apply_option :: "FileSourceOption \<Rightarrow> FileSource \<Rightarrow> FileSource" where
  "apply_option (WithCRLExpiryGrace d) s = s\<lparr>fs_expiryGrace := d\<rparr>"
| "apply_option WithLogger s = s"

section \<open>The validity window\<close>

definition crlClockSkewAllowance :: Duration where
  "crlClockSkewAllowance = 5 * Minute"

definition crlNotYetValidAt :: "Time \<Rightarrow> Time \<Rightarrow> bool" where
  "crlNotYetValidAt thisUpdate now \<longleftrightarrow>
     \<not> IsZero thisUpdate \<and> Before now (Time_Add thisUpdate (- crlClockSkewAllowance))"

definition crlExpiredAt :: "Time \<Rightarrow> Duration \<Rightarrow> Time \<Rightarrow> bool" where
  "crlExpiredAt nextUpdate expiryGrace now \<longleftrightarrow>
     \<not> IsZero nextUpdate \<and> After now (Time_Add nextUpdate expiryGrace)"

definition crlUsableAt :: "Time \<Rightarrow> Time \<Rightarrow> Duration \<Rightarrow> Time \<Rightarrow> bool" where
  "crlUsableAt thisUpdate nextUpdate expiryGrace now \<longleftrightarrow>
     \<not> crlExpiredAt nextUpdate expiryGrace now \<and> \<not> crlNotYetValidAt thisUpdate now"

definition crlValiditySnapshot :: "FileSource \<Rightarrow> Time \<times> Time" where
  "crlValiditySnapshot s = (fs_thisUpdate s, fs_nextUpdate s)"

definition crlUsable :: "Time \<Rightarrow> FileSource \<Rightarrow> bool" where
  "crlUsable now s = (let (tu, nu) = crlValiditySnapshot s in crlUsableAt tu nu (fs_expiryGrace s) now)"

definition crlExpired :: "Time \<Rightarrow> FileSource \<Rightarrow> bool" where
  "crlExpired now s = (let (_, nu) = crlValiditySnapshot s in crlExpiredAt nu (fs_expiryGrace s) now)"

section \<open>Lookups\<close>

text \<open>The reason code of an entry: the last byte of the first CRLReason extension, 0 without one.\<close>

fun entry_reason :: "Extension list \<Rightarrow> int" where
  "entry_reason [] = 0"
| "entry_reason (x # xs) =
     (if ext_Id x = [2, 5, 29, 21]
      then (if ext_Value x \<noteq> [] then uint (last (ext_Value x)) else 0)
      else entry_reason xs)"

text \<open>
  What \<open>GetStatus\<close> computes from one snapshot of the generation, after the lock is released.
\<close>

definition snapshot_answer ::
  "bool \<Rightarrow> RevokedCertificate option \<Rightarrow> Time \<Rightarrow> Certificate \<Rightarrow> Certificate option
     \<Rightarrow> source_error + CertStatus option" where
  "snapshot_answer usable entry nextUpdate own issuer =
     (if \<not> usable then Inl ErrSourceUnhealthy
      else case issuer of
        None \<Rightarrow> Inl IssuerRequired
      | Some c \<Rightarrow>
          if RawSubject c \<noteq> RawSubject own then Inl IssuerMismatch
          else (case entry of
            Some r \<Rightarrow>
              Inr (Some \<lparr>cs_Status = StatusRevoked,
                         cs_RevocationInfo = Some \<lparr>RevokedAt = rc_RevocationTime r,
                                                   Reason = entry_reason (rc_Extensions r)\<rparr>,
                         cs_SourceNextUpdate = nextUpdate\<rparr>)
          | None \<Rightarrow>
              Inr (Some \<lparr>cs_Status = StatusGood, cs_RevocationInfo = None,
                         cs_SourceNextUpdate = nextUpdate\<rparr>)))"

definition FileSource_GetStatus ::
  "call_env \<Rightarrow> int \<Rightarrow> Certificate option \<Rightarrow> FileSource
     \<Rightarrow> (source_error + CertStatus option) \<times> FileSource \<times> metric_call list" where
  "FileSource_GetStatus e serial issuer s =
     (case ce_ctxErr e of
        Some c \<Rightarrow> (Inl (CtxErr c), s, [])
      | None \<Rightarrow>
          if \<not> fs_loaded s then (Inl ErrSourceUnhealthy, s, [])
          else (let usable = crlUsableAt (fs_thisUpdate s) (fs_nextUpdate s) (fs_expiryGrace s) (ce_now e)
                in (snapshot_answer usable (fs_revoked s (big_String serial)) (fs_nextUpdate s)
                      (fs_issuerCert s) issuer, s, [])))"

definition FileSource_Name :: "FileSource \<Rightarrow> string" where
  "FileSource_Name s = ''file''"

definition FileSource_Healthy :: "Time \<Rightarrow> FileSource \<Rightarrow> bool" where
  "FileSource_Healthy now s \<longleftrightarrow> fs_loaded s \<and> crlUsable now s"

definition file_source :: "(call_env, FileSource) Source" where
  "file_source = \<lparr>GetStatus = FileSource_GetStatus, Name = FileSource_Name,
                  Healthy = FileSource_Healthy\<rparr>"

section \<open>Loading\<close>

definition verifyCRLForIssuer ::
  "crl_lib \<Rightarrow> RevocationList \<Rightarrow> Certificate \<Rightarrow> source_error option" where
  "verifyCRLForIssuer x rl issuer =
     (if rl_RawIssuer rl \<noteq> RawSubject issuer then Some CRLIssuerMismatch
      else if \<not> crl_CheckSignatureFrom x rl issuer then Some CRLSignatureFailed
      else None)"

definition crl_index :: "RevokedCertificate list \<Rightarrow> string \<rightharpoonup> RevokedCertificate" where
  "crl_index rcs = fold (\<lambda>rc m. m(big_String (rc_SerialNumber rc) \<mapsto> rc)) rcs Map.empty"

definition parseCRLBytes :: "crl_lib \<Rightarrow> bytes \<Rightarrow> FileSource \<Rightarrow> source_error + FileSource" where
  "parseCRLBytes x b s =
     (let der = (case pem_Decode x b of Some blk \<Rightarrow> blk | None \<Rightarrow> b)
      in case ParseRevocationList x der of
           None \<Rightarrow> Inl ErrInvalidCRL
         | Some rl \<Rightarrow>
             (case verifyCRLForIssuer x rl (fs_issuerCert s) of
               Some err \<Rightarrow> Inl err
             | None \<Rightarrow> Inr (s\<lparr>fs_revoked := crl_index (rl_Entries rl),
                              fs_thisUpdate := rl_ThisUpdate rl,
                              fs_nextUpdate := rl_NextUpdate rl,
                              fs_loaded := True\<rparr>)))"

definition readCRLFile :: "crl_lib \<Rightarrow> crl_io \<Rightarrow> FileSource \<Rightarrow> source_error + bytes \<times> bytes" where
  "readCRLFile x io s =
     (case io_ReadFile io (fs_crlPath s) of
        None \<Rightarrow> Inl CRLFileFailed
      | Some b \<Rightarrow> Inr (b, Sum256 x b))"

definition storeHash :: "bytes \<Rightarrow> FileSource \<Rightarrow> FileSource" where
  "storeHash h s = s\<lparr>fs_lastHash := h\<rparr>"

definition loadFromDisk :: "crl_lib \<Rightarrow> crl_io \<Rightarrow> FileSource \<Rightarrow> source_error + FileSource" where
  "loadFromDisk x io s =
     (case readCRLFile x io s of
        Inl err \<Rightarrow> Inl err
      | Inr (b, h) \<Rightarrow>
          (case parseCRLBytes x b s of
             Inl err \<Rightarrow> Inl err
           | Inr s' \<Rightarrow> Inr (storeHash h s')))"

definition reloadFromDiskIfChanged :: "crl_lib \<Rightarrow> crl_io \<Rightarrow> FileSource \<Rightarrow> source_error + FileSource" where
  "reloadFromDiskIfChanged x io s =
     (case readCRLFile x io s of
        Inl err \<Rightarrow> Inl err
      | Inr (b, h) \<Rightarrow>
          if h = fs_lastHash s \<and> fs_loaded s then Inr s
          else (case parseCRLBytes x b s of
                  Inl err \<Rightarrow> Inl err
                | Inr s' \<Rightarrow> Inr (storeHash h s')))"

definition loadFromURL :: "crl_lib \<Rightarrow> crl_io \<Rightarrow> FileSource \<Rightarrow> source_error + FileSource" where
  "loadFromURL x io s =
     (case io_Get io (fs_crlPath s) of
        GetFailed \<Rightarrow> Inl CRLDownloadFailed
      | GetResponse code body \<Rightarrow>
          if code \<noteq> 200 then Inl (CRLDownloadStatus code)
          else (case body of
                  None \<Rightarrow> Inl CRLBodyFailed
                | Some b \<Rightarrow> parseCRLBytes x b s))"

definition loadCRL :: "crl_lib \<Rightarrow> crl_io \<Rightarrow> FileSource \<Rightarrow> source_error + FileSource" where
  "loadCRL x io s = (if fs_isURL s then loadFromURL x io s else loadFromDisk x io s)"

section \<open>Health transitions and the reload loop\<close>

definition checkExpiry :: "Time \<Rightarrow> FileSource \<Rightarrow> FileSource \<times> fs_log list" where
  "checkExpiry now s =
     (let (tu, nu) = crlValiditySnapshot s in
      if \<not> crlUsableAt tu nu (fs_expiryGrace s) now then
        (s\<lparr>fs_expiredLogged := True\<rparr>,
         if fs_expiredLogged s then []
         else if crlNotYetValidAt tu now then [LogNotYetValid (fs_crlPath s) tu]
         else [LogExpired (fs_crlPath s) nu (fs_expiryGrace s)])
      else
        (s\<lparr>fs_expiredLogged := False\<rparr>,
         if fs_expiredLogged s then [LogValidAgain (fs_crlPath s)] else []))"

definition markUnhealthy :: "source_error \<Rightarrow> FileSource \<Rightarrow> FileSource \<times> fs_log list" where
  "markUnhealthy err s =
     (s\<lparr>fs_loaded := False\<rparr>,
      if fs_loaded s then [LogUnhealthy (fs_crlPath s) err]
      else [LogStillUnhealthy (fs_crlPath s) err])"

text \<open>One tick of the loop.\<close>

definition reload_tick :: "crl_lib \<Rightarrow> crl_io \<Rightarrow> Time \<Rightarrow> FileSource \<Rightarrow> FileSource \<times> fs_log list" where
  "reload_tick x io now s =
     (if fs_isURL s then
        (case loadFromURL x io s of
           Inl err \<Rightarrow> markUnhealthy err s
         | Inr s' \<Rightarrow> checkExpiry now s')
      else
        (case reloadFromDiskIfChanged x io s of
           Inl err \<Rightarrow> markUnhealthy err s
         | Inr s' \<Rightarrow> checkExpiry now s'))"

text \<open>
  What the \<open>select\<close> of the loop receives: the stop signal, or a tick with the file system or network
  as it then is and the clock.
\<close>

datatype loop_event = Done | Tick crl_io Time

fun reload_run :: "crl_lib \<Rightarrow> FileSource \<Rightarrow> loop_event list \<Rightarrow> FileSource \<times> fs_log list" where
  "reload_run x s [] = (s, [])"
| "reload_run x s (Done # es) = (s, [])"
| "reload_run x s (Tick io now # es) =
     (let (s', l) = reload_tick x io now s; (s'', l') = reload_run x s' es in (s'', l @ l'))"

text \<open>\<open>time.NewTicker\<close> panics on an interval that is not positive; that is \<open>None\<close>.\<close>

definition reloadLoop :: "crl_lib \<Rightarrow> FileSource \<Rightarrow> loop_event list \<Rightarrow> (FileSource \<times> fs_log list) option" where
  "reloadLoop x s es = (if fs_reloadInterval s \<le> 0 then None else Some (reload_run x s es))"

text \<open>\<open>Stop\<close> closes the channel the loop listens on; closing it a second time panics.\<close>

datatype done_channel = DoneOpen | DoneClosed

fun FileSource_Stop :: "done_channel \<Rightarrow> done_channel option" where
  "FileSource_Stop DoneOpen = Some DoneClosed"
| "FileSource_Stop DoneClosed = None"

definition NewFileSource ::
  "crl_lib \<Rightarrow> crl_io \<Rightarrow> Time \<Rightarrow> string \<Rightarrow> Duration \<Rightarrow> Certificate option \<Rightarrow> FileSourceOption list
     \<Rightarrow> source_error + FileSource \<times> fs_log list" where
  "NewFileSource x io now crlPath reloadInterval issuerCert opts =
     (case issuerCert of
        None \<Rightarrow> Inl NewIssuerRequired
      | Some c \<Rightarrow>
          let isURL = (HasPrefix crlPath ''http://'' \<or> HasPrefix crlPath ''https://'');
              s0 = \<lparr>fs_crlPath = crlPath, fs_reloadInterval = reloadInterval, fs_issuerCert = c,
                    fs_isURL = isURL, fs_revoked = Map.empty, fs_thisUpdate = 0, fs_nextUpdate = 0,
                    fs_loaded = False, fs_expiredLogged = False, fs_lastHash = replicate 32 0,
                    fs_expiryGrace = 0\<rparr>;
              s = fold apply_option opts s0
          in (case loadCRL x io s of
                Inl err \<Rightarrow> Inl err
              | Inr s' \<Rightarrow> Inr (checkExpiry now s')))"

section \<open>What a CRL says, and when a source serves it\<close>

text \<open>
  The abstract specification: the answer a CRL gives for a serial, by its last entry for that
  serial.  \<open>installed rl s\<close> says the source holds the generation \<open>rl\<close>; \<open>issued_crl x c rl\<close> that \<open>rl\<close> parsed
  from some bytes, names \<open>c\<close> as its issuer and carries its signature.
\<close>

definition crl_entry :: "RevocationList \<Rightarrow> int \<Rightarrow> RevokedCertificate option" where
  "crl_entry rl n = find (\<lambda>rc. rc_SerialNumber rc = n) (rev (rl_Entries rl))"

definition crl_status :: "RevocationList \<Rightarrow> int \<Rightarrow> CertStatus" where
  "crl_status rl n =
     (case crl_entry rl n of
        Some rc \<Rightarrow> \<lparr>cs_Status = StatusRevoked,
                    cs_RevocationInfo = Some \<lparr>RevokedAt = rc_RevocationTime rc,
                                              Reason = entry_reason (rc_Extensions rc)\<rparr>,
                    cs_SourceNextUpdate = rl_NextUpdate rl\<rparr>
      | None \<Rightarrow> \<lparr>cs_Status = StatusGood, cs_RevocationInfo = None,
                 cs_SourceNextUpdate = rl_NextUpdate rl\<rparr>)"

definition installed :: "RevocationList \<Rightarrow> FileSource \<Rightarrow> bool" where
  "installed rl s \<longleftrightarrow> fs_revoked s = crl_index (rl_Entries rl) \<and>
     fs_thisUpdate s = rl_ThisUpdate rl \<and> fs_nextUpdate s = rl_NextUpdate rl"

definition crl_of :: "crl_lib \<Rightarrow> Certificate \<Rightarrow> bytes \<Rightarrow> RevocationList option" where
  "crl_of x c b =
     (case ParseRevocationList x (case pem_Decode x b of Some blk \<Rightarrow> blk | None \<Rightarrow> b) of
        None \<Rightarrow> None
      | Some rl \<Rightarrow> if verifyCRLForIssuer x rl c = None then Some rl else None)"

definition serves :: "crl_lib \<Rightarrow> bytes \<Rightarrow> FileSource \<Rightarrow> bool" where
  "serves x b s \<longleftrightarrow> (\<exists>rl. crl_of x (fs_issuerCert s) b = Some rl \<and> installed rl s)"

text \<open>
  The invariant: a loaded source serves the CRL in some bytes that parsed and verified, and for a
  file those bytes are the ones whose digest is remembered.
\<close>

definition fs_inv :: "crl_lib \<Rightarrow> FileSource \<Rightarrow> bool" where
  "fs_inv x s \<longleftrightarrow> (fs_loaded s \<longrightarrow>
     (\<exists>b. serves x b s \<and> (\<not> fs_isURL s \<longrightarrow> fs_lastHash s = Sum256 x b)))"

text \<open>
  The same with a bound on the bytes: for a file they are among \<open>B\<close>, the contents the source has read.
\<close>

definition fs_inv_on :: "crl_lib \<Rightarrow> bytes set \<Rightarrow> FileSource \<Rightarrow> bool" where
  "fs_inv_on x B s \<longleftrightarrow> (fs_loaded s \<longrightarrow>
     (\<exists>b. serves x b s \<and> (\<not> fs_isURL s \<longrightarrow> b \<in> B \<and> fs_lastHash s = Sum256 x b)))"

abbreviation disk_bytes :: "crl_io \<Rightarrow> string \<Rightarrow> bytes set" where
  "disk_bytes io path \<equiv> set_option (io_ReadFile io path)"

text \<open>The configuration fields no operation writes.\<close>

definition fs_config :: "FileSource \<Rightarrow> string \<times> Duration \<times> Certificate \<times> bool \<times> Duration" where
  "fs_config s = (fs_crlPath s, fs_reloadInterval s, fs_issuerCert s, fs_isURL s, fs_expiryGrace s)"

text \<open>
  How the reload loop reports a CRL leaving and re-entering its window: \<open>flag\<close> says whether the last
  such line reported it outside.  Lines about reload failures do not count.
\<close>

fun window_logs_alternate :: "bool \<Rightarrow> fs_log list \<Rightarrow> bool" where
  "window_logs_alternate flag [] = True"
| "window_logs_alternate flag (LogNotYetValid p t # ls) = (\<not> flag \<and> window_logs_alternate True ls)"
| "window_logs_alternate flag (LogExpired p t g # ls) = (\<not> flag \<and> window_logs_alternate True ls)"
| "window_logs_alternate flag (LogValidAgain p # ls) = (flag \<and> window_logs_alternate False ls)"
| "window_logs_alternate flag (_ # ls) = window_logs_alternate flag ls"

text \<open>
  What a log says last about the window, and when the CRL a source holds is outside its window (zero
  times are absent fields; five minutes of clock skew are allowed before ThisUpdate).
\<close>

fun window_line :: "fs_log \<Rightarrow> bool" where
  "window_line (LogNotYetValid p t) = True"
| "window_line (LogExpired p t g) = True"
| "window_line (LogValidAgain p) = True"
| "window_line _ = False"

definition reported_outside :: "fs_log list \<Rightarrow> bool" where
  "reported_outside ls =
     (case find window_line (rev ls) of None \<Rightarrow> False | Some (LogValidAgain p) \<Rightarrow> False | Some _ \<Rightarrow> True)"

definition too_early :: "FileSource \<Rightarrow> Time \<Rightarrow> bool" where
  "too_early s now \<longleftrightarrow> fs_thisUpdate s \<noteq> 0 \<and> now < fs_thisUpdate s - 5 * Minute"

definition outside_window :: "FileSource \<Rightarrow> Time \<Rightarrow> bool" where
  "outside_window s now \<longleftrightarrow>
     too_early s now \<or> (fs_nextUpdate s \<noteq> 0 \<and> fs_nextUpdate s + fs_expiryGrace s < now)"

section \<open>Facts on the window and the index\<close>

lemma crlExpiredAt_iff [window_simps]:
  "crlExpiredAt nu g now \<longleftrightarrow> nu \<noteq> 0 \<and> nu + g < now"
  by (auto simp: crlExpiredAt_def go_defs)

lemma crlNotYetValidAt_iff [window_simps]:
  "crlNotYetValidAt tu now \<longleftrightarrow> tu \<noteq> 0 \<and> now < tu - 5 * Minute"
  by (auto simp: crlNotYetValidAt_def crlClockSkewAllowance_def go_defs)

lemma crlUsableAt_iff [window_simps]:
  "crlUsableAt tu nu g now \<longleftrightarrow> (nu = 0 \<or> now \<le> nu + g) \<and> (tu = 0 \<or> tu - 5 * Minute \<le> now)"
  by (auto simp: crlUsableAt_def window_simps)

lemma crl_index_append:
  "crl_index (rcs @ [rc]) = (crl_index rcs)(big_String (rc_SerialNumber rc) \<mapsto> rc)"
  by (simp add: crl_index_def)

lemma crl_index_lookup:
  "crl_index rcs (big_String n) = find (\<lambda>rc. rc_SerialNumber rc = n) (rev rcs)"
proof (induction rcs rule: rev_induct)
  case Nil
  then show ?case by (simp add: crl_index_def)
next
  case (snoc rc rcs)
  then show ?case by (simp add: crl_index_append)
qed

lemma installed_lookup: "installed rl s \<Longrightarrow> fs_revoked s (big_String n) = crl_entry rl n"
  by (simp add: installed_def crl_index_lookup crl_entry_def)

lemma crl_entry_mem: "crl_entry rl n = Some rc \<Longrightarrow> rc \<in> set (rl_Entries rl) \<and> rc_SerialNumber rc = n"
  unfolding crl_entry_def by (drule find_rev_SomeD) simp

lemma crl_entry_None: "crl_entry rl n = None \<longleftrightarrow> (\<forall>rc \<in> set (rl_Entries rl). rc_SerialNumber rc \<noteq> n)"
  by (simp add: crl_entry_def find_rev_None)

lemma snapshot_answer_status:
  assumes "installed rl s"
  shows "snapshot_answer True (fs_revoked s (big_String n)) (fs_nextUpdate s) own (Some c) =
     (if RawSubject c = RawSubject own then Inr (Some (crl_status rl n)) else Inl IssuerMismatch)"
  unfolding snapshot_answer_def crl_status_def installed_lookup [OF assms]
  using assms by (simp add: installed_def split: option.splits)

section \<open>Facts on loading\<close>

lemma parseCRLBytes_crl_of:
  "parseCRLBytes x b s =
     (case crl_of x (fs_issuerCert s) b of
        Some rl \<Rightarrow> Inr (s\<lparr>fs_revoked := crl_index (rl_Entries rl), fs_thisUpdate := rl_ThisUpdate rl,
                         fs_nextUpdate := rl_NextUpdate rl, fs_loaded := True\<rparr>)
      | None \<Rightarrow> Inl (projl (parseCRLBytes x b s)))"
  by (auto simp: parseCRLBytes_def crl_of_def Let_def split: option.splits)

lemma parseCRLBytes_ok:
  "parseCRLBytes x b s = Inr s' \<Longrightarrow>
     serves x b s' \<and> fs_loaded s' \<and> fs_config s' = fs_config s \<and> fs_expiredLogged s' = fs_expiredLogged s"
  by (subst (asm) parseCRLBytes_crl_of)
    (auto simp: serves_def installed_def fs_config_def split: option.splits)

lemma parseCRLBytes_error_iff:
  "(\<exists>err. parseCRLBytes x b s = Inl err) \<longleftrightarrow> crl_of x (fs_issuerCert s) b = None"
  by (subst parseCRLBytes_crl_of) (auto split: option.splits)

lemma serves_cong:
  "fs_config s = fs_config s' \<Longrightarrow> fs_revoked s = fs_revoked s' \<Longrightarrow> fs_thisUpdate s = fs_thisUpdate s' \<Longrightarrow>
     fs_nextUpdate s = fs_nextUpdate s' \<Longrightarrow> serves x b s = serves x b s'"
  by (simp add: serves_def installed_def fs_config_def)

lemma storeHash_simps [simp]:
  "fs_config (storeHash h s) = fs_config s" "fs_loaded (storeHash h s) = fs_loaded s"
  "fs_lastHash (storeHash h s) = h" "serves x b (storeHash h s) = serves x b s"
  "fs_expiredLogged (storeHash h s) = fs_expiredLogged s"
  by (simp_all add: storeHash_def fs_config_def serves_def installed_def)

lemma checkExpiry_frame:
  "fst (checkExpiry now s) = s\<lparr>fs_expiredLogged := \<not> crlUsable now s\<rparr>"
  by (simp add: checkExpiry_def crlUsable_def Let_def split: prod.splits)

lemma checkExpiryD: "checkExpiry now s = (s', l) \<Longrightarrow> s' = s\<lparr>fs_expiredLogged := \<not> crlUsable now s\<rparr>"
  using checkExpiry_frame [of now s] by simp

lemma expiredLogged_simps [simp]:
  "fs_config (s\<lparr>fs_expiredLogged := v\<rparr>) = fs_config s"
  "serves x b (s\<lparr>fs_expiredLogged := v\<rparr>) = serves x b s"
  "fs_config (s\<lparr>fs_loaded := w\<rparr>) = fs_config s"
  "installed rl (s\<lparr>fs_expiredLogged := v\<rparr>) = installed rl s"
  by (simp_all add: fs_config_def serves_def installed_def)

lemma fs_inv_expiredLogged [simp]: "fs_inv x (s\<lparr>fs_expiredLogged := v\<rparr>) = fs_inv x s"
  by (simp add: fs_inv_def)

lemma fs_inv_unloaded [simp]: "fs_inv x (s\<lparr>fs_loaded := False\<rparr>)"
  by (simp add: fs_inv_def)

lemma fs_inv_on_simps [simp]:
  "fs_inv_on x B (s\<lparr>fs_expiredLogged := v\<rparr>) = fs_inv_on x B s" "fs_inv_on x B (s\<lparr>fs_loaded := False\<rparr>)"
  by (simp_all add: fs_inv_on_def)

lemma fs_configD:
  "fs_config s' = fs_config s \<Longrightarrow> fs_crlPath s' = fs_crlPath s \<and> fs_reloadInterval s' = fs_reloadInterval s
     \<and> fs_issuerCert s' = fs_issuerCert s \<and> fs_isURL s' = fs_isURL s \<and> fs_expiryGrace s' = fs_expiryGrace s"
  by (simp add: fs_config_def)

lemma loadFromURL_ok:
  "loadFromURL x io s = Inr s' \<Longrightarrow>
     \<exists>b. io_Get io (fs_crlPath s) = GetResponse 200 (Some b) \<and> serves x b s' \<and> fs_loaded s' \<and>
         fs_config s' = fs_config s"
  by (auto simp: loadFromURL_def dest!: parseCRLBytes_ok split: http_get.splits if_splits option.splits)

lemma loadFromDisk_ok:
  "loadFromDisk x io s = Inr s' \<Longrightarrow>
     \<exists>b. io_ReadFile io (fs_crlPath s) = Some b \<and> serves x b s' \<and> fs_lastHash s' = Sum256 x b \<and>
         fs_loaded s' \<and> fs_config s' = fs_config s"
  by (auto simp: loadFromDisk_def readCRLFile_def dest!: parseCRLBytes_ok split: sum.splits option.splits)

lemma reloadFromDiskIfChanged_ok:
  assumes "reloadFromDiskIfChanged x io s = Inr s'"
  obtains b where "io_ReadFile io (fs_crlPath s) = Some b" and "fs_loaded s'"
    and "fs_config s' = fs_config s"
    and "s' = s \<and> fs_loaded s \<and> fs_lastHash s = Sum256 x b \<or> serves x b s' \<and> fs_lastHash s' = Sum256 x b"
  using assms
  by (auto simp: reloadFromDiskIfChanged_def readCRLFile_def dest!: parseCRLBytes_ok
      split: sum.splits option.splits if_splits)

lemma loaded_inv_intro:
  "serves x b s \<Longrightarrow> (\<not> fs_isURL s \<Longrightarrow> b \<in> B \<and> fs_lastHash s = Sum256 x b) \<Longrightarrow> fs_inv_on x B s"
  by (auto simp: fs_inv_on_def)

lemma fs_inv_UNIV: "fs_inv x s = fs_inv_on x UNIV s"
  by (simp add: fs_inv_def fs_inv_on_def)

section \<open>Every operation keeps the invariant and the configuration\<close>

lemma loadCRL_inv:
  assumes "loadCRL x io s = Inr s'" and "disk_bytes io (fs_crlPath s) \<subseteq> B"
  shows "fs_inv_on x B s' \<and> fs_loaded s' \<and> fs_config s' = fs_config s"
proof (cases "fs_isURL s")
  case True
  with assms obtain b where "serves x b s'" "fs_loaded s'" "fs_config s' = fs_config s"
    by (auto simp: loadCRL_def dest: loadFromURL_ok)
  with True show ?thesis by (auto intro: loaded_inv_intro dest: fs_configD)
next
  case False
  with assms obtain b where "serves x b s'" "b \<in> B" "fs_lastHash s' = Sum256 x b" "fs_loaded s'"
    "fs_config s' = fs_config s"
    by (auto simp: loadCRL_def dest!: loadFromDisk_ok)
  then show ?thesis by (auto intro: loaded_inv_intro)
qed

lemma reload_tick_cases:
  obtains (ok) s1 where "(if fs_isURL s then loadFromURL x io s else reloadFromDiskIfChanged x io s) = Inr s1"
      and "reload_tick x io now s = checkExpiry now s1"
    | (err) err where "(if fs_isURL s then loadFromURL x io s else reloadFromDiskIfChanged x io s) = Inl err"
      and "reload_tick x io now s = markUnhealthy err s"
  by (cases "if fs_isURL s then loadFromURL x io s else reloadFromDiskIfChanged x io s")
    (auto simp: reload_tick_def split: if_splits)

lemma reload_tick_inv_on:
  assumes inv: "fs_inv_on x B s" and sub: "disk_bytes io (fs_crlPath s) \<subseteq> B"
  shows "fs_inv_on x B (fst (reload_tick x io now s)) \<and> fs_config (fst (reload_tick x io now s)) = fs_config s"
proof (cases rule: reload_tick_cases [of s x io now])
  case (ok s1)
  have "fs_inv_on x B s1 \<and> fs_config s1 = fs_config s"
  proof (cases "fs_isURL s")
    case True
    with ok(1) obtain b where "serves x b s1" and cfg: "fs_config s1 = fs_config s"
      by (auto dest: loadFromURL_ok)
    with True show ?thesis by (auto intro: loaded_inv_intro dest: fs_configD)
  next
    case False
    with ok(1) have "reloadFromDiskIfChanged x io s = Inr s1" by simp
    then show ?thesis
      by (rule reloadFromDiskIfChanged_ok) (use inv sub in \<open>auto intro: loaded_inv_intro\<close>)
  qed
  with ok(2) show ?thesis by (simp add: checkExpiry_frame)
next
  case (err e)
  then show ?thesis by (simp add: markUnhealthy_def)
qed

lemma reload_tick_inv:
  "fs_inv x s \<Longrightarrow> fs_inv x (fst (reload_tick x io now s)) \<and> fs_config (fst (reload_tick x io now s)) = fs_config s"
  by (simp add: fs_inv_UNIV reload_tick_inv_on)

lemma reload_run_inv_on:
  assumes "fs_inv_on x B s" and "\<And>io now. Tick io now \<in> set es \<Longrightarrow> disk_bytes io (fs_crlPath s) \<subseteq> B"
  shows "fs_inv_on x B (fst (reload_run x s es)) \<and> fs_config (fst (reload_run x s es)) = fs_config s"
  using assms
proof (induction x s es rule: reload_run.induct)
  case (3 x s io now es)
  let ?t = "reload_tick x io now s"
  have inv: "fs_inv_on x B (fst ?t)" and cfg: "fs_config (fst ?t) = fs_config s"
    using reload_tick_inv_on [OF 3(2,3)] by auto
  with 3(1) [OF refl prod.collapse inv] 3(3) show ?case
    by (fastforce simp: Let_def split_beta dest: fs_configD)
qed simp_all

lemma reload_run_inv:
  "fs_inv x s \<Longrightarrow> fs_inv x (fst (reload_run x s es)) \<and> fs_config (fst (reload_run x s es)) = fs_config s"
  by (simp add: fs_inv_UNIV reload_run_inv_on)

lemma reload_run_snoc:
  assumes "Done \<notin> set es"
  shows "reload_run x s (es @ [Tick io now]) =
    (let (s1, l1) = reload_run x s es; (s2, l2) = reload_tick x io now s1 in (s2, l1 @ l2))"
  using assms by (induction x s es rule: reload_run.induct) (auto simp: Let_def split: prod.splits)

lemma apply_option_frame:
  "fs_loaded (fold apply_option opts s) = fs_loaded s \<and> fs_isURL (fold apply_option opts s) = fs_isURL s \<and>
   fs_crlPath (fold apply_option opts s) = fs_crlPath s \<and>
   fs_issuerCert (fold apply_option opts s) = fs_issuerCert s \<and>
   fs_reloadInterval (fold apply_option opts s) = fs_reloadInterval s"
proof (induction opts arbitrary: s)
  case (Cons o' opts)
  then show ?case by (cases o') simp_all
qed simp

lemma NewFileSource_cases:
  assumes "NewFileSource x io now path ivl issuer opts = Inr (s, l)"
  obtains s0 s1 where "loadCRL x io s0 = Inr s1" and "checkExpiry now s1 = (s, l)"
    and "issuer = Some (fs_issuerCert s0)" and "fs_reloadInterval s0 = ivl" and "fs_crlPath s0 = path"
    and "\<not> fs_expiredLogged s0"
proof -
  have flag: "fs_expiredLogged (fold apply_option opts s') = fs_expiredLogged s'" for s'
  proof (induction opts arbitrary: s')
    case (Cons o' opts)
    then show ?case by (cases o') simp_all
  qed simp
  show ?thesis
    using assms that by (fastforce simp: NewFileSource_def Let_def apply_option_frame flag split: option.splits sum.splits)
qed

lemma NewFileSource_inv_on:
  assumes "NewFileSource x io now path ivl issuer opts = Inr (s, l)" and "disk_bytes io path \<subseteq> B"
  shows "fs_inv_on x B s \<and> fs_loaded s \<and> issuer = Some (fs_issuerCert s) \<and> fs_reloadInterval s = ivl \<and> fs_crlPath s = path"
proof (rule NewFileSource_cases [OF assms(1)])
  fix s0 s1
  assume s1: "loadCRL x io s0 = Inr s1" and s: "checkExpiry now s1 = (s, l)"
    and s0: "issuer = Some (fs_issuerCert s0)" "fs_reloadInterval s0 = ivl" "fs_crlPath s0 = path"
  from loadCRL_inv [OF s1, of B] assms(2) s0 checkExpiryD [OF s] show ?thesis by (auto dest: fs_configD)
qed

lemma NewFileSource_inv:
  assumes "NewFileSource x io now path ivl issuer opts = Inr (s, l)"
  shows "fs_inv x s \<and> fs_loaded s \<and> issuer = Some (fs_issuerCert s) \<and> fs_reloadInterval s = ivl"
  using NewFileSource_inv_on [OF assms, of UNIV] by (simp add: fs_inv_UNIV)

section \<open>One tick on a file\<close>

lemma reload_tick_unread:
  assumes "\<not> fs_isURL s" and "io_ReadFile io (fs_crlPath s) = None"
  shows "reload_tick x io now s = markUnhealthy CRLFileFailed s"
  using assms by (simp add: reload_tick_def reloadFromDiskIfChanged_def readCRLFile_def)

lemma reload_tick_unchanged:
  assumes "\<not> fs_isURL s" and "io_ReadFile io (fs_crlPath s) = Some b"
    and "fs_lastHash s = Sum256 x b" and "fs_loaded s"
  shows "reload_tick x io now s = checkExpiry now s"
  using assms by (simp add: reload_tick_def reloadFromDiskIfChanged_def readCRLFile_def)

lemma reload_tick_parse:
  assumes "\<not> fs_isURL s" and "io_ReadFile io (fs_crlPath s) = Some b"
    and "\<not> (fs_lastHash s = Sum256 x b \<and> fs_loaded s)"
    and "reload_tick x io now s = (s', l)"
  shows "if crl_of x (fs_issuerCert s) b = None then \<not> fs_loaded s'
         else fs_loaded s' \<and> serves x b s' \<and> fs_lastHash s' = Sum256 x b"
proof (cases "parseCRLBytes x b s")
  case (Inl err)
  then have "crl_of x (fs_issuerCert s) b = None"
    using parseCRLBytes_error_iff [of x b s] by blast
  with Inl assms show ?thesis
    by (auto simp: reload_tick_def reloadFromDiskIfChanged_def readCRLFile_def markUnhealthy_def)
next
  case (Inr s1)
  then have "crl_of x (fs_issuerCert s) b \<noteq> None"
    using parseCRLBytes_error_iff [of x b s] by auto
  moreover have "checkExpiry now (storeHash (Sum256 x b) s1) = (s', l)"
    using Inr assms
    by (auto simp: reload_tick_def reloadFromDiskIfChanged_def readCRLFile_def)
  ultimately show ?thesis using parseCRLBytes_ok [OF Inr] by (auto dest: checkExpiryD)
qed

section \<open>Log lines\<close>

lemma parseCRLBytes_flag: "parseCRLBytes x b s = Inr s' \<Longrightarrow> fs_expiredLogged s' = fs_expiredLogged s"
  by (drule parseCRLBytes_ok) simp

lemma reload_flag:
  assumes "(if fs_isURL s then loadFromURL x io s else reloadFromDiskIfChanged x io s) = Inr s1"
  shows "fs_expiredLogged s1 = fs_expiredLogged s"
  using assms
  by (auto simp: loadFromURL_def reloadFromDiskIfChanged_def readCRLFile_def dest!: parseCRLBytes_flag
      split: if_splits http_get.splits option.splits sum.splits)

lemma reload_tick_logs:
  "window_logs_alternate (fs_expiredLogged s) (snd (reload_tick x io now s) @ ls) =
     window_logs_alternate (fs_expiredLogged (fst (reload_tick x io now s))) ls"
proof (cases rule: reload_tick_cases [of s x io now])
  case (ok s1)
  have "window_logs_alternate (fs_expiredLogged s1) (snd (checkExpiry now s1) @ ls) =
        window_logs_alternate (fs_expiredLogged (fst (checkExpiry now s1))) ls"
    by (simp add: checkExpiry_def Let_def split: prod.splits)
  with ok reload_flag [OF ok(1)] show ?thesis by simp
next
  case (err e)
  then show ?thesis by (simp add: markUnhealthy_def)
qed

text \<open>
  The flag of the source is what its log says last about the window, so the lines of a tick are decided
  by the log before it and by the window.
\<close>

lemma reported_outside_append:
  "reported_outside (ls @ ls') = (if filter window_line ls' = [] then reported_outside ls else reported_outside ls')"
proof -
  have "find window_line (rev ls') = None \<longleftrightarrow> filter window_line ls' = []"
    by (auto simp: find_None_iff filter_empty_conv)
  then show ?thesis by (auto simp: reported_outside_def find_append split: option.splits)
qed

definition window_report :: "bool \<Rightarrow> FileSource \<Rightarrow> Time \<Rightarrow> fs_log list" where
  "window_report before s now =
     (if before = outside_window s now then []
      else if \<not> outside_window s now then [LogValidAgain (fs_crlPath s)]
      else if too_early s now then [LogNotYetValid (fs_crlPath s) (fs_thisUpdate s)]
      else [LogExpired (fs_crlPath s) (fs_nextUpdate s) (fs_expiryGrace s)])"

lemma outside_window_usable: "outside_window s now \<longleftrightarrow> \<not> crlUsable now s"
  by (auto simp: outside_window_def too_early_def crlUsable_def crlValiditySnapshot_def window_simps)

lemma window_report_says:
  "reported_outside (ls @ window_report (reported_outside ls) s now) = outside_window s now"
  by (auto simp: reported_outside_append window_report_def reported_outside_def)

lemma checkExpiry_report:
  "checkExpiry now s = (s\<lparr>fs_expiredLogged := outside_window s now\<rparr>, window_report (fs_expiredLogged s) s now)"
  by (auto simp: checkExpiry_def window_report_def outside_window_def too_early_def crlValiditySnapshot_def window_simps)

lemma window_report_lines: "filter window_line (window_report before s now) = window_report before s now"
  by (simp add: window_report_def)

lemma window_report_flag [simp]: "window_report before (s\<lparr>fs_expiredLogged := v\<rparr>) now = window_report before s now"
  "outside_window (s\<lparr>fs_expiredLogged := v\<rparr>) now = outside_window s now"
  by (simp_all add: window_report_def outside_window_def too_early_def)

lemma reload_tick_report:
  assumes "reload_tick x io now s = (s', l)" and "fs_expiredLogged s = reported_outside ls"
  shows "filter window_line l = (if fs_loaded s' then window_report (reported_outside ls) s' now else []) \<and>
    fs_expiredLogged s' = reported_outside (ls @ l)"
proof (cases rule: reload_tick_cases [of s x io now])
  case (ok s1)
  with reload_flag [OF ok(1)] assms have s': "s' = s1\<lparr>fs_expiredLogged := outside_window s1 now\<rparr>"
    and l: "l = window_report (reported_outside ls) s1 now" by (simp_all add: checkExpiry_report)
  have "fs_loaded s1"
    using ok(1) by (auto split: if_splits dest!: loadFromURL_ok elim: reloadFromDiskIfChanged_ok)
  with s' l window_report_says [of ls s1 now] show ?thesis by (simp add: window_report_lines)
next
  case (err e)
  with assms have "s' = s\<lparr>fs_loaded := False\<rparr>" "filter window_line l = []" by (auto simp: markUnhealthy_def)
  with assms(2) show ?thesis by (simp add: reported_outside_append)
qed

lemma reload_run_flag:
  "reload_run x s es = (s', l) \<Longrightarrow> fs_expiredLogged s = reported_outside ls \<Longrightarrow> fs_expiredLogged s' = reported_outside (ls @ l)"
proof (induction x s es arbitrary: s' l ls rule: reload_run.induct)
  case (3 x s io now es)
  obtain s1 l1 where t: "reload_tick x io now s = (s1, l1)" by (metis surj_pair)
  obtain l2 where u: "reload_run x s1 es = (s', l2)" and l: "l = l1 @ l2"
    using 3(2) t by (auto simp: Let_def split: prod.splits)
  from 3(1) [OF t [symmetric] refl u, of "ls @ l1"] reload_tick_report [OF t 3(3)] show ?case by (simp add: l)
qed simp_all

lemma NewFileSource_report:
  assumes "NewFileSource x io now path ivl issuer opts = Inr (s, l)"
  shows "l = window_report False s now \<and> fs_expiredLogged s = reported_outside l"
proof (rule NewFileSource_cases [OF assms])
  fix s0 s1
  assume s1: "loadCRL x io s0 = Inr s1" and s: "checkExpiry now s1 = (s, l)" and "\<not> fs_expiredLogged s0"
  moreover from s1 have "fs_expiredLogged s1 = fs_expiredLogged s0"
    by (auto simp: loadCRL_def loadFromURL_def loadFromDisk_def readCRLFile_def dest!: parseCRLBytes_flag
        split: if_splits http_get.splits option.splits sum.splits)
  ultimately have "s = s1\<lparr>fs_expiredLogged := outside_window s1 now\<rparr>" "l = window_report False s1 now"
    by (auto simp: checkExpiry_report)
  then show ?thesis using window_report_says [of "[]" s1 now] by (simp add: reported_outside_def)
qed

section \<open>The contract of a source\<close>

definition file_vouches :: "crl_lib \<Rightarrow> call_env \<Rightarrow> FileSource \<Rightarrow> int \<Rightarrow> bool" where
  "file_vouches x e s n \<longleftrightarrow>
     (\<exists>b rl. crl_of x (fs_issuerCert s) b = Some rl \<and> installed rl s \<and>
        crlUsableAt (rl_ThisUpdate rl) (rl_NextUpdate rl) (fs_expiryGrace s) (ce_now e) \<and>
        n \<notin> rc_SerialNumber ` set (rl_Entries rl))"

definition file_revokes :: "crl_lib \<Rightarrow> call_env \<Rightarrow> FileSource \<Rightarrow> int \<Rightarrow> RevocationInfo \<Rightarrow> bool" where
  "file_revokes x e s n ri \<longleftrightarrow>
     (\<exists>b rl rc. crl_of x (fs_issuerCert s) b = Some rl \<and> installed rl s \<and>
        crlUsableAt (rl_ThisUpdate rl) (rl_NextUpdate rl) (fs_expiryGrace s) (ce_now e) \<and>
        rc \<in> set (rl_Entries rl) \<and> rc_SerialNumber rc = n \<and>
        ri = \<lparr>RevokedAt = rc_RevocationTime rc, Reason = entry_reason (rc_Extensions rc)\<rparr>)"

text \<open>The only way to an answer.\<close>

lemma file_GetStatus_answer:
  assumes "FileSource_GetStatus e n i s = (Inr (Some cs), s', ev)" and "fs_inv x s"
  obtains b rl c where "crl_of x (fs_issuerCert s) b = Some rl" and "installed rl s"
    and "crlUsableAt (rl_ThisUpdate rl) (rl_NextUpdate rl) (fs_expiryGrace s) (ce_now e)"
    and "i = Some c" and "RawSubject c = RawSubject (fs_issuerCert s)" and "cs = crl_status rl n"
proof -
  from assms(1) have l: "fs_loaded s"
    by (auto simp: FileSource_GetStatus_def split: option.splits if_splits)
  with assms(2) obtain b rl where b: "crl_of x (fs_issuerCert s) b = Some rl" and rl: "installed rl s"
    by (auto simp: fs_inv_def serves_def)
  from assms(1) have snap: "snapshot_answer (crlUsableAt (fs_thisUpdate s) (fs_nextUpdate s) (fs_expiryGrace s) (ce_now e))
        (fs_revoked s (big_String n)) (fs_nextUpdate s) (fs_issuerCert s) i = Inr (Some cs)"
    by (auto simp: FileSource_GetStatus_def Let_def split: option.splits if_splits)
  then obtain c where u: "crlUsableAt (fs_thisUpdate s) (fs_nextUpdate s) (fs_expiryGrace s) (ce_now e)"
    and c: "i = Some c"
    by (auto simp: snapshot_answer_def split: if_splits option.splits)
  with snap snapshot_answer_status [OF rl] have "RawSubject c = RawSubject (fs_issuerCert s)"
    and "cs = crl_status rl n"
    by (auto split: if_splits)
  with that b rl u c show ?thesis by (simp add: installed_def)
qed

lemma crl_status_good: "cs_Status (crl_status rl n) = StatusGood \<longleftrightarrow> n \<notin> rc_SerialNumber ` set (rl_Entries rl)"
  by (cases "crl_entry rl n")
    (use crl_entry_None [of rl n] crl_entry_mem [of rl n] in \<open>auto simp: crl_status_def\<close>)

lemma crl_status_revoked:
  "cs_RevocationInfo (crl_status rl n) = Some ri \<Longrightarrow>
     \<exists>rc \<in> set (rl_Entries rl). rc_SerialNumber rc = n \<and>
       ri = \<lparr>RevokedAt = rc_RevocationTime rc, Reason = entry_reason (rc_Extensions rc)\<rparr>"
  by (auto simp: crl_status_def dest: crl_entry_mem split: option.splits)

lemma wf_crl_status: "wf_CertStatus (crl_status rl n)"
  by (simp add: crl_status_def wf_CertStatus.simps split: option.splits)

lemma file_GetStatus_state: "FileSource_GetStatus e n i s = (r, s', ev) \<Longrightarrow> s' = s \<and> ev = []"
  by (auto simp: FileSource_GetStatus_def Let_def split: option.splits if_splits)

interpretation crlsrc: status_source file_source "fs_inv x" ce_ctxErr "file_vouches x" "file_revokes x"
  for x
proof unfold_locales
  fix e :: call_env and s n i r s' ev
  assume "fs_inv x s" "GetStatus file_source e n i s = (r, s', ev)"
  then show "fs_inv x s'" by (auto simp: file_source_def dest: file_GetStatus_state)
next
  fix e :: call_env and c n i s
  assume "ce_ctxErr e = Some c"
  then show "GetStatus file_source e n i s = (Inl (CtxErr c), s, [])"
    by (simp add: file_source_def FileSource_GetStatus_def)
next
  fix e :: call_env and s n i cs s' ev
  assume "fs_inv x s" "GetStatus file_source e n i s = (Inr (Some cs), s', ev)"
  then show "wf_CertStatus cs"
    unfolding file_source_def Source.simps
    by (elim file_GetStatus_answer) (auto simp: wf_crl_status)
next
  fix e :: call_env and s n i cs s' ev
  assume "fs_inv x s" "GetStatus file_source e n i s = (Inr (Some cs), s', ev)" "cs_Status cs = StatusGood"
  then show "file_vouches x e s n"
    unfolding file_source_def Source.simps file_vouches_def
    by (elim file_GetStatus_answer) (auto simp: crl_status_good)
next
  fix e :: call_env and s n i cs s' ev ri
  assume "fs_inv x s" "GetStatus file_source e n i s = (Inr (Some cs), s', ev)"
    "cs_Status cs = StatusRevoked" "cs_RevocationInfo cs = Some ri"
  then show "file_revokes x e s n ri"
    unfolding file_source_def Source.simps file_revokes_def
    by (elim file_GetStatus_answer) (auto dest!: crl_status_revoked)
qed

interpretation crlsrc: telemetry_source file_source
proof unfold_locales
  show "GetStatus file_source e n i s = (r, s', ms) \<Longrightarrow> list_all source_call ms" for e n i s r s' ms
    by (auto simp: file_source_def dest: file_GetStatus_state)
qed (simp add: file_source_def FileSource_Name_def ascii_def)

section \<open>Publication\<close>

text \<open>The bytes published where a source looks.\<close>

definition published :: "crl_io \<Rightarrow> FileSource \<Rightarrow> bytes \<Rightarrow> bool" where
  "published io s b \<longleftrightarrow>
     (if fs_isURL s then io_Get io (fs_crlPath s) = GetResponse 200 (Some b) else io_ReadFile io (fs_crlPath s) = Some b)"

lemma reload_tick_published:
  assumes inv: "fs_inv_on x B s" and pub: "published io s b" and crl: "crl_of x (fs_issuerCert s) b = Some rl"
    and inj: "\<And>old. old \<in> B \<Longrightarrow> Sum256 x old = Sum256 x b \<Longrightarrow> old = b"
  shows "installed rl (fst (reload_tick x io now s)) \<and> fs_loaded (fst (reload_tick x io now s)) \<and>
    fs_config (fst (reload_tick x io now s)) = fs_config s"
proof (cases rule: reload_tick_cases [of s x io now])
  case (ok s1)
  have "serves x b s1 \<and> fs_loaded s1 \<and> fs_config s1 = fs_config s"
  proof (cases "fs_isURL s")
    case True
    with ok(1) pub show ?thesis by (auto simp: published_def dest!: loadFromURL_ok)
  next
    case False
    with ok(1) have r: "reloadFromDiskIfChanged x io s = Inr s1" by simp
    show ?thesis
    proof (rule reloadFromDiskIfChanged_ok [OF r])
      fix b'
      assume b': "io_ReadFile io (fs_crlPath s) = Some b'" "fs_loaded s1" "fs_config s1 = fs_config s"
        "s1 = s \<and> fs_loaded s \<and> fs_lastHash s = Sum256 x b' \<or> serves x b' s1 \<and> fs_lastHash s1 = Sum256 x b'"
      with pub False have "b' = b" by (simp add: published_def)
      moreover have "serves x b s" if "fs_loaded s" "fs_lastHash s = Sum256 x b"
        using inv inj that False unfolding fs_inv_on_def by metis
      ultimately show ?thesis using b' by auto
    qed
  qed
  with crl ok(2) show ?thesis
    by (auto simp: serves_def checkExpiry_frame installed_def dest: fs_configD)
next
  case (err e)
  have "parseCRLBytes x b s \<noteq> Inl e'" for e' using parseCRLBytes_error_iff [of x b s] crl by auto
  with err(1) pub show ?thesis
    by (auto simp: published_def loadFromURL_def reloadFromDiskIfChanged_def readCRLFile_def split: if_splits sum.splits)
qed

section \<open>Properties\<close>

text \<open>
  C2: a lookup on a source that holds the generation \<open>rl\<close> refines the specification: an error the
  context already carries comes first, an unloaded source or a CRL outside its validity window is
  \<open>ErrSourceUnhealthy\<close>, a missing or foreign issuer is refused, and otherwise the answer is what the
  last entry of \<open>rl\<close> for the serial says, with the NextUpdate of \<open>rl\<close>.  The state never changes.
\<close>

theorem file_GetStatus_refines:
  assumes "installed rl s"
  shows "FileSource_GetStatus e n i s =
    (case ce_ctxErr e of
       Some c \<Rightarrow> (Inl (CtxErr c), s, [])
     | None \<Rightarrow>
         (if \<not> fs_loaded s \<or>
             (rl_NextUpdate rl \<noteq> 0 \<and> rl_NextUpdate rl + fs_expiryGrace s < ce_now e) \<or>
             (rl_ThisUpdate rl \<noteq> 0 \<and> ce_now e < rl_ThisUpdate rl - 5 * Minute)
          then Inl ErrSourceUnhealthy
          else (case i of
                  None \<Rightarrow> Inl IssuerRequired
                | Some c \<Rightarrow> if RawSubject c = RawSubject (fs_issuerCert s)
                            then Inr (Some (crl_status rl n)) else Inl IssuerMismatch), s, []))"
proof -
  have w: "crlUsableAt (fs_thisUpdate s) (fs_nextUpdate s) (fs_expiryGrace s) (ce_now e) \<longleftrightarrow>
     \<not> ((rl_NextUpdate rl \<noteq> 0 \<and> rl_NextUpdate rl + fs_expiryGrace s < ce_now e) \<or>
        (rl_ThisUpdate rl \<noteq> 0 \<and> ce_now e < rl_ThisUpdate rl - 5 * Minute))"
    using assms by (auto simp: installed_def window_simps)
  have none: "snapshot_answer True r nu own None = Inl IssuerRequired"
    and unus: "snapshot_answer False r nu own i = Inl ErrSourceUnhealthy" for r nu own
    by (simp_all add: snapshot_answer_def)
  show ?thesis
    using snapshot_answer_status [OF assms, of n]
    by (auto simp: FileSource_GetStatus_def Let_def w none unus split: option.splits)
qed

text \<open>
  C3: after a tick on a file, the source is in service exactly when the file was readable and its
  bytes parse and verify as a CRL of the issuer, and then it serves that very content.  So a swapped,
  corrupt or unreadable file takes the source out of service, and the next good file restores it, also
  when its content is the one served before the failure.  The digest is trusted only for the bytes
  served before (\<open>old\<close>) and the bytes now on disk.
\<close>

theorem reload_tick_disk:
  assumes "\<not> fs_isURL s"
    and "fs_loaded s \<Longrightarrow> serves x old s \<and> fs_lastHash s = Sum256 x old"
    and "\<And>b. io_ReadFile io (fs_crlPath s) = Some b \<Longrightarrow> Sum256 x old = Sum256 x b \<Longrightarrow> old = b"
    and "reload_tick x io now s = (s', l)"
  shows "(case io_ReadFile io (fs_crlPath s) of
            None \<Rightarrow> \<not> fs_loaded s'
          | Some b \<Rightarrow> if crl_of x (fs_issuerCert s) b = None then \<not> fs_loaded s'
                      else fs_loaded s' \<and> serves x b s' \<and> fs_lastHash s' = Sum256 x b)"
proof (cases "io_ReadFile io (fs_crlPath s)")
  case None
  with reload_tick_unread [OF assms(1)] assms(4) show ?thesis
    by (auto simp: markUnhealthy_def)
next
  case (Some b)
  show ?thesis
  proof (cases "fs_lastHash s = Sum256 x b \<and> fs_loaded s")
    case True
    with assms(2,3) Some have "serves x b s" by metis
    with True Some assms(4) reload_tick_unchanged [OF assms(1) Some] show ?thesis
      by (auto simp: serves_def dest!: checkExpiryD)
  next
    case False
    from reload_tick_parse [OF assms(1) Some False assms(4)] Some show ?thesis by simp
  qed
qed

text \<open>
  C6: after a tick on a URL, the source is in service exactly when the download answered 200 with a
  body that parses and verifies as a CRL of the issuer, and then it serves that body.
\<close>

theorem reload_tick_url:
  assumes "fs_isURL s" and "reload_tick x io now s = (s', l)"
  shows "(case io_Get io (fs_crlPath s) of
            GetResponse code (Some b) \<Rightarrow>
              if code = 200 \<and> crl_of x (fs_issuerCert s) b \<noteq> None
              then fs_loaded s' \<and> serves x b s' else \<not> fs_loaded s'
          | _ \<Rightarrow> \<not> fs_loaded s')"
proof (cases rule: reload_tick_cases [of s x io now])
  case (ok s1)
  with assms(1) have "loadFromURL x io s = Inr s1" by simp
  then obtain b where "io_Get io (fs_crlPath s) = GetResponse 200 (Some b)" "serves x b s1"
    "fs_loaded s1" "fs_config s1 = fs_config s"
    using loadFromURL_ok by blast
  moreover from ok(2) assms(2) have "checkExpiry now s1 = (s', l)" by simp
  then have "s' = s1\<lparr>fs_expiredLogged := \<not> crlUsable now s1\<rparr>" by (rule checkExpiryD)
  ultimately show ?thesis by (auto simp: serves_def dest!: fs_configD)
next
  case (err e)
  with assms(1) have "loadFromURL x io s = Inl e" by simp
  then have "parseCRLBytes x b s = Inl e" if "io_Get io (fs_crlPath s) = GetResponse 200 (Some b)" for b
    using that by (simp add: loadFromURL_def)
  with err(2) assms(2) show ?thesis
    using parseCRLBytes_error_iff [of x _ s]
    by (auto simp: markUnhealthy_def split: http_get.splits option.splits)
qed

text \<open>
  C5: from construction on, through any sequence of reloads with any file or network contents, a
  source in service holds a CRL that parsed, names the configured issuer and carries its signature;
  and the configuration never changes.
\<close>

theorem file_source_always_verified:
  assumes "NewFileSource x io now path ivl (Some c) opts = Inr (s0, l0)"
    and "reloadLoop x s0 es = Some (s, l)"
  shows "fs_issuerCert s = c \<and> fs_config s = fs_config s0 \<and>
    (fs_loaded s \<longrightarrow> (\<exists>b rl. crl_of x c b = Some rl \<and> rl_RawIssuer rl = RawSubject c \<and>
        crl_CheckSignatureFrom x rl c \<and> installed rl s))"
proof -
  from NewFileSource_inv [OF assms(1)] have "fs_inv x s0" and c: "fs_issuerCert s0 = c" by auto
  with reload_run_inv [of x s0 es] assms(2) have inv: "fs_inv x s" and cfg: "fs_config s = fs_config s0"
    by (auto simp: reloadLoop_def split: if_splits)
  from cfg c have "fs_issuerCert s = c" by (auto dest: fs_configD)
  moreover have "rl_RawIssuer rl = RawSubject c \<and> crl_CheckSignatureFrom x rl c"
    if "crl_of x c b = Some rl" for b rl
    using that by (auto simp: crl_of_def verifyCRLForIssuer_def split: option.splits if_splits)
  ultimately show ?thesis using inv cfg by (fastforce simp: fs_inv_def serves_def)
qed

text \<open>
  C7: the log tells the truth about the validity window, once per transition.  After construction and any
  ticks, the lines of the next tick are decided by what the log so far says last and by the window of
  the CRL then held: nothing when the log already says it; otherwise that the CRL is valid again, that
  it is not valid yet (with its ThisUpdate), or that it has expired (with its NextUpdate and the
  grace).  A tick that takes the source out of service says nothing about the window.  The constructor
  reports a CRL it finds outside its window, and reports of leaving and of returning alternate.
\<close>

theorem window_transitions_logged_once:
  assumes "NewFileSource x io0 now0 path ivl (Some c) opts = Inr (s0, l0)" and "reloadLoop x s0 es = Some (s1, l1)"
    and "reload_tick x io now s1 = (s2, l2)"
  shows "reported_outside l0 = outside_window s0 now0 \<and>
    filter window_line l2 =
      (if \<not> fs_loaded s2 \<or> reported_outside (l0 @ l1) = outside_window s2 now then []
       else if \<not> outside_window s2 now then [LogValidAgain path]
       else if too_early s2 now then [LogNotYetValid path (fs_thisUpdate s2)]
       else [LogExpired path (fs_nextUpdate s2) (fs_expiryGrace s0)]) \<and>
    window_logs_alternate False (l0 @ l1 @ l2)"
proof -
  from assms(2) have run: "reload_run x s0 es = (s1, l1)" by (auto simp: reloadLoop_def split: if_splits)
  note new = NewFileSource_report [OF assms(1)]
  from NewFileSource_inv_on [OF assms(1), of UNIV] have "fs_inv x s0" "fs_crlPath s0 = path" by (simp_all add: fs_inv_UNIV)
  with reload_run_inv [of x s0 es] reload_tick_inv [of x s1 io now] run assms(3)
  have cfg: "fs_crlPath s2 = path" "fs_expiryGrace s2 = fs_expiryGrace s0" by (auto dest!: fs_configD)
  have alt: "window_logs_alternate (fs_expiredLogged s) (l @ ls) = window_logs_alternate (fs_expiredLogged s') ls"
    if "reload_run x s es = (s', l)" for s s' l ls es
    using that
  proof (induction x s es arbitrary: s' l rule: reload_run.induct)
    case (3 x s io now es)
    then show ?case using reload_tick_logs [of s x io now] by (auto simp: Let_def split: prod.splits)
  qed simp_all
  have "window_logs_alternate False (l0 @ ls) = window_logs_alternate (reported_outside l0) ls" for ls
    using new by (auto simp: window_report_def reported_outside_def)
  then have "window_logs_alternate False (l0 @ l1 @ l2)"
    using alt [OF run] reload_tick_logs [of s1 x io now "[]"] assms(3) new by simp
  moreover have "reported_outside l0 = outside_window s0 now0" using new window_report_says [of "[]" s0 now0]
    by (simp add: reported_outside_def)
  moreover have "fs_expiredLogged s1 = reported_outside (l0 @ l1)" using reload_run_flag [OF run] new by simp
  note reload_tick_report [OF assms(3) this]
  ultimately show ?thesis using cfg by (simp add: window_report_def)
qed

text \<open>
  C8: the health report and the lookups agree: the source is healthy at an instant exactly when a
  lookup under the configured issuer at that instant, with a live context, is answered and not
  refused as unhealthy.
\<close>

theorem file_health_iff_answers:
  assumes "ce_ctxErr e = None"
  shows "FileSource_Healthy (ce_now e) s \<longleftrightarrow>
    (\<exists>cs. fst (FileSource_GetStatus e n (Some (fs_issuerCert s)) s) = Inr (Some cs))"
  using assms
  by (auto simp: FileSource_Healthy_def crlUsable_def crlValiditySnapshot_def FileSource_GetStatus_def
      snapshot_answer_def Let_def split: option.splits)

text \<open>
  C4: recovery takes one tick.  Whatever happened to the source since its construction (it may be serving,
  withdrawn after failures, or holding an expired CRL), once a verified CRL is published the next tick
  installs it: from then on, until another tick, every lookup at an instant inside its validity window
  is answered by that CRL, and the source is healthy.  The digest is trusted only for the contents the
  source has read before and the published one: no such content collides with it.
\<close>

theorem published_crl_served:
  assumes "NewFileSource x io0 now0 path ivl (Some c) opts = Inr (s0, l0)"
    and "Done \<notin> set es" and "reloadLoop x s0 (es @ [Tick io now]) = Some (s, l)"
    and "published io s0 b" and "crl_of x c b = Some rl"
    and "\<And>io' old. io' = io0 \<or> (\<exists>t. Tick io' t \<in> set es) \<Longrightarrow> io_ReadFile io' path = Some old \<Longrightarrow>
           Sum256 x old = Sum256 x b \<Longrightarrow> old = b"
    and "crlUsableAt (rl_ThisUpdate rl) (rl_NextUpdate rl) (fs_expiryGrace s0) (ce_now e)" and "ce_ctxErr e = None"
  shows "FileSource_GetStatus e n (Some c) s = (Inr (Some (crl_status rl n)), s, []) \<and> FileSource_Healthy (ce_now e) s"
proof -
  define B where "B = disk_bytes io0 path \<union> (\<Union>{disk_bytes io' path |io'. \<exists>t. Tick io' t \<in> set es})"
  have new: "fs_inv_on x B s0" "fs_issuerCert s0 = c" "fs_crlPath s0 = path"
    using NewFileSource_inv_on [OF assms(1), of B] by (auto simp: B_def)
  obtain s1 l1 where run: "reload_run x s0 es = (s1, l1)" by (metis surj_pair)
  with assms(3) have s: "s = fst (reload_tick x io now s1)"
    by (auto simp: reloadLoop_def reload_run_snoc [OF assms(2)] split: if_splits prod.splits)
  have "fs_inv_on x B s1 \<and> fs_config s1 = fs_config s0"
    using reload_run_inv_on [OF new(1), of es] run unfolding new(3) by (auto simp: B_def)
  then have inv: "fs_inv_on x B s1" and c1: "fs_config s1 = fs_config s0" by auto
  have "published io s1 b" "crl_of x (fs_issuerCert s1) b = Some rl"
    using assms(4,5) fs_configD [OF c1] new(2) by (simp_all add: published_def)
  moreover have "old = b" if "old \<in> B" "Sum256 x old = Sum256 x b" for old
    using that assms(6) by (auto simp: B_def)
  ultimately have i: "installed rl s" and l: "fs_loaded s" and c: "fs_config s = fs_config s0"
    using reload_tick_published [OF inv, of io b rl now] c1 by (auto simp: s)
  from fs_configD [OF c] new(2) have "fs_issuerCert s = c" "fs_expiryGrace s = fs_expiryGrace s0" by auto
  moreover have "fs_thisUpdate s = rl_ThisUpdate rl" "fs_nextUpdate s = rl_NextUpdate rl" using i by (simp_all add: installed_def)
  ultimately show ?thesis using l assms(7,8) snapshot_answer_status [OF i, of n c c]
    by (simp add: FileSource_GetStatus_def FileSource_Healthy_def crlUsable_def crlValiditySnapshot_def)
qed

section \<open>Witnesses\<close>

text \<open>
  A concrete instance: issuer \<open>[7]\<close>, two published files (bytes \<open>[1]\<close> and \<open>[2]\<close>), a one-byte checksum
  as the digest and a parser that knows the two files.  The first CRL lists serial 5 twice, the later entry with reason
  1 (key compromise); the second lists nothing.
\<close>

definition ex_issuer :: Certificate where
  "ex_issuer = \<lparr>RawSubject = [7], RawSubjectPublicKeyInfo = [8], cert_PublicKey = RSAPublicKey 3233 17,
     IsCA = True, KeyUsage = 32, ExtKeyUsage = [], NotBefore = 0, NotAfter = 9000 * Day\<rparr>"

definition ex_crl :: RevocationList where
  "ex_crl = \<lparr>rl_RawIssuer = [7],
     rl_Entries = [\<lparr>rc_SerialNumber = 5, rc_RevocationTime = 40, rc_Extensions = []\<rparr>,
                   \<lparr>rc_SerialNumber = 5, rc_RevocationTime = 50,
                    rc_Extensions = [\<lparr>ext_Id = [2, 5, 29, 21], ext_Value = [10, 1, 1]\<rparr>]\<rparr>],
     rl_ThisUpdate = Hour, rl_NextUpdate = 2 * Hour\<rparr>"

definition ex_crl2 :: RevocationList where
  "ex_crl2 = \<lparr>rl_RawIssuer = [7], rl_Entries = [], rl_ThisUpdate = 2 * Hour, rl_NextUpdate = 0\<rparr>"

definition ex_lib :: crl_lib where
  "ex_lib = \<lparr>Sum256 = (\<lambda>b. [foldr (+) b 0]), pem_Decode = (\<lambda>_. None),
     ParseRevocationList = (\<lambda>b. if b = [1] then Some ex_crl else if b = [2] then Some ex_crl2 else None),
     crl_CheckSignatureFrom = (\<lambda>_ _. True)\<rparr>"

definition ex_io :: "bytes \<Rightarrow> crl_io" where
  "ex_io b = \<lparr>io_ReadFile = (\<lambda>_. Some b), io_Get = (\<lambda>_. GetResponse 200 (Some b))\<rparr>"

definition ex_source :: "string \<Rightarrow> FileSource" where
  "ex_source p = \<lparr>fs_crlPath = p, fs_reloadInterval = Minute, fs_issuerCert = ex_issuer,
     fs_isURL = HasPrefix p ''http://'', fs_revoked = crl_index (rl_Entries ex_crl),
     fs_thisUpdate = Hour, fs_nextUpdate = 2 * Hour, fs_loaded = True, fs_expiredLogged = False,
     fs_lastHash = [1], fs_expiryGrace = 0\<rparr>"

lemmas ex_defs = ex_issuer_def ex_crl_def ex_crl2_def ex_lib_def ex_io_def ex_source_def

lemma ex_installed: "installed ex_crl (ex_source p)"
  by (simp add: installed_def ex_defs)

lemma ex_crl_of: "crl_of ex_lib ex_issuer [1] = Some ex_crl" "crl_of ex_lib ex_issuer [2] = Some ex_crl2"
  "crl_of ex_lib ex_issuer [3] = None"
  by (simp_all add: crl_of_def verifyCRLForIssuer_def ex_defs)

theorem file_GetStatus_refines_witness:
  "installed ex_crl (ex_source ''ca.crl'') \<and>
   FileSource_GetStatus \<lparr>ce_ctxErr = None, ce_now = Hour\<rparr> 5 (Some ex_issuer) (ex_source ''ca.crl'') =
     (Inr (Some \<lparr>cs_Status = StatusRevoked, cs_RevocationInfo = Some \<lparr>RevokedAt = 50, Reason = 1\<rparr>,
                 cs_SourceNextUpdate = 2 * Hour\<rparr>), ex_source ''ca.crl'', [])"
  using ex_installed [of "''ca.crl''"]
    file_GetStatus_refines [OF ex_installed, of "\<lparr>ce_ctxErr = None, ce_now = Hour\<rparr>" 5 "Some ex_issuer" "''ca.crl''"]
  by (simp add: ex_defs crl_status_def crl_entry_def)

theorem reload_tick_disk_witness:
  "serves ex_lib [2] (fst (reload_tick ex_lib (ex_io [2]) Hour (ex_source ''ca.crl''))) \<and>
   \<not> fs_loaded (fst (reload_tick ex_lib (ex_io [3]) Hour (ex_source ''ca.crl'')))"
proof -
  let ?s = "ex_source ''ca.crl''"
  have pre: "\<not> fs_isURL ?s" "fs_loaded ?s \<Longrightarrow> serves ex_lib [1] ?s \<and> fs_lastHash ?s = Sum256 ex_lib [1]"
    using ex_installed [of "''ca.crl''"] ex_crl_of(1)
    by (auto simp: serves_def) (simp_all add: ex_defs)
  have tick: "case io_ReadFile (ex_io [k]) (fs_crlPath ?s) of
      None \<Rightarrow> \<not> fs_loaded s'
    | Some b \<Rightarrow> if crl_of ex_lib (fs_issuerCert ?s) b = None then \<not> fs_loaded s'
        else fs_loaded s' \<and> serves ex_lib b s' \<and> fs_lastHash s' = Sum256 ex_lib b"
    if "reload_tick ex_lib (ex_io [k]) Hour ?s = (s', l)" for k s' l
  proof (rule reload_tick_disk [OF pre _ that])
    show "[1] = b" if "io_ReadFile (ex_io [k]) (fs_crlPath ?s) = Some b" "Sum256 ex_lib [1] = Sum256 ex_lib b" for b
      using that by (auto simp: ex_lib_def ex_io_def)
  qed
  show ?thesis
    using tick [OF prod.collapse [symmetric], of 2] tick [OF prod.collapse [symmetric], of 3] ex_crl_of
    by (simp add: ex_io_def ex_source_def)
qed

theorem reload_tick_url_witness:
  "serves ex_lib [2] (fst (reload_tick ex_lib (ex_io [2]) Hour (ex_source ''http://ca/crl''))) \<and>
   \<not> fs_loaded (fst (reload_tick ex_lib (ex_io [3]) Hour (ex_source ''http://ca/crl'')))"
proof -
  have "fs_isURL (ex_source ''http://ca/crl'')" by (simp add: ex_source_def)
  note tick = reload_tick_url [OF this prod.collapse [symmetric]]
  show ?thesis
    using tick [of ex_lib "ex_io [2]" Hour] tick [of ex_lib "ex_io [3]" Hour] ex_crl_of
    by (simp add: ex_io_def ex_source_def)
qed

theorem file_source_always_verified_witness:
  "\<exists>s0 l0 s l. NewFileSource ex_lib (ex_io [1]) Hour ''ca.crl'' Minute (Some ex_issuer) [] = Inr (s0, l0) \<and>
     reloadLoop ex_lib s0 [Tick (ex_io [3]) Hour, Tick (ex_io [2]) (2 * Hour), Done] = Some (s, l) \<and>
     fs_issuerCert s = ex_issuer \<and> fs_loaded s"
proof -
  let ?new = "NewFileSource ex_lib (ex_io [1]) Hour ''ca.crl'' Minute (Some ex_issuer) []"
  let ?run = "\<lambda>s. reloadLoop ex_lib s [Tick (ex_io [3]) Hour, Tick (ex_io [2]) (2 * Hour), Done]"
  obtain s0 l0 where n: "?new = Inr (s0, l0)" and ivl: "fs_reloadInterval s0 = Minute"
    by (simp add: NewFileSource_def loadCRL_def loadFromDisk_def readCRLFile_def parseCRLBytes_def
        verifyCRLForIssuer_def checkExpiry_def crlValiditySnapshot_def window_simps storeHash_def ex_defs)
  then obtain s l where r: "?run s0 = Some (s, l)"
    by (simp add: reloadLoop_def) (metis surj_pair)
  from n r have "fs_loaded s"
    by (auto simp: NewFileSource_def loadCRL_def loadFromDisk_def readCRLFile_def parseCRLBytes_def
        verifyCRLForIssuer_def checkExpiry_def crlValiditySnapshot_def window_simps storeHash_def ex_defs
        reloadLoop_def reload_tick_def reloadFromDiskIfChanged_def markUnhealthy_def)
  with n r file_source_always_verified [OF n r] show ?thesis by blast
qed

theorem file_health_iff_answers_witness:
  "FileSource_Healthy Hour (ex_source ''ca.crl'') \<and>
   (\<exists>cs. fst (FileSource_GetStatus \<lparr>ce_ctxErr = None, ce_now = Hour\<rparr> 6
           (Some (fs_issuerCert (ex_source ''ca.crl''))) (ex_source ''ca.crl'')) = Inr (Some cs))"
proof -
  have "FileSource_Healthy Hour (ex_source ''ca.crl'')"
    by (simp add: FileSource_Healthy_def crlUsable_def crlValiditySnapshot_def window_simps ex_defs)
  with file_health_iff_answers [of "\<lparr>ce_ctxErr = None, ce_now = Hour\<rparr>" "ex_source ''ca.crl''" 6]
  show ?thesis by simp
qed

text \<open>A source that a corrupt file took out of service recovers with the file it served before.\<close>

definition ex_new :: "source_error + FileSource \<times> fs_log list" where
  "ex_new = NewFileSource ex_lib (ex_io [1]) Hour ''ca.crl'' Minute (Some ex_issuer) []"

lemma ex_new: "ex_new = Inr (ex_source ''ca.crl'', [])"
  by (simp add: ex_new_def NewFileSource_def loadCRL_def loadFromDisk_def readCRLFile_def parseCRLBytes_def
      verifyCRLForIssuer_def checkExpiry_def crlValiditySnapshot_def window_simps storeHash_def ex_defs)

lemma ex_loop: "reloadLoop ex_lib (ex_source ''ca.crl'') es = Some (reload_run ex_lib (ex_source ''ca.crl'') es)"
  by (simp add: reloadLoop_def ex_source_def)

theorem published_crl_served_witness:
  "\<exists>s l. reloadLoop ex_lib (ex_source ''ca.crl'') ([Tick (ex_io [3]) Hour] @ [Tick (ex_io [1]) Hour]) = Some (s, l) \<and>
     FileSource_Healthy (Hour + 1) s \<and>
     fst (FileSource_GetStatus \<lparr>ce_ctxErr = None, ce_now = Hour + 1\<rparr> 5 (Some ex_issuer) s) = Inr (Some (crl_status ex_crl 5))"
proof -
  let ?s0 = "ex_source ''ca.crl''"
  obtain s l where run: "reloadLoop ex_lib ?s0 ([Tick (ex_io [3]) Hour] @ [Tick (ex_io [1]) Hour]) = Some (s, l)"
    unfolding ex_loop by (metis surj_pair)
  have pub: "published (ex_io [1]) ?s0 [1]" by (simp add: published_def ex_defs)
  have inj: "old = [1]" if "io' = ex_io [1] \<or> (\<exists>t. Tick io' t \<in> set [Tick (ex_io [3]) Hour])"
    "io_ReadFile io' ''ca.crl'' = Some old" "Sum256 ex_lib old = Sum256 ex_lib [1]" for io' old
    using that by (auto simp: ex_lib_def ex_io_def)
  have use: "crlUsableAt (rl_ThisUpdate ex_crl) (rl_NextUpdate ex_crl) (fs_expiryGrace ?s0) (Hour + 1)"
    by (simp add: window_simps ex_defs)
  from published_crl_served [OF ex_new [unfolded ex_new_def] _ run pub ex_crl_of(1) inj,
      where e = "\<lparr>ce_ctxErr = None, ce_now = Hour + 1\<rparr>" and n = 5] use
  have "FileSource_GetStatus \<lparr>ce_ctxErr = None, ce_now = Hour + 1\<rparr> 5 (Some ex_issuer) s = (Inr (Some (crl_status ex_crl 5)), s, []) \<and>
    FileSource_Healthy (Hour + 1) s" by (simp only: call_env.simps) simp
  with run show ?thesis by (intro exI [of _ s] exI [of _ l]) (simp only: fst_conv simp_thms)
qed

text \<open>The first CRL expires after two hours: the tick that sees it logs it, the next one says nothing more.\<close>

theorem window_transitions_logged_once_witness:
  "\<exists>s1 l1. reloadLoop ex_lib (ex_source ''ca.crl'') [Tick (ex_io [1]) Hour] = Some (s1, l1) \<and>
     filter window_line (snd (reload_tick ex_lib (ex_io [1]) (3 * Hour) s1)) = [LogExpired ''ca.crl'' (2 * Hour) 0]"
proof -
  let ?s0 = "ex_source ''ca.crl''"
  have tick: "reload_tick ex_lib (ex_io [1]) now ?s0 = checkExpiry now ?s0" for now
    by (rule reload_tick_unchanged [where b = "[1]"]) (simp_all add: ex_defs)
  have one: "reloadLoop ex_lib ?s0 [Tick (ex_io [1]) Hour] = Some (?s0, [])"
    by (simp add: ex_loop tick checkExpiry_report) (simp add: window_report_def outside_window_def too_early_def ex_defs)
  have two: "reload_tick ex_lib (ex_io [1]) (3 * Hour) ?s0 = (?s0\<lparr>fs_expiredLogged := True\<rparr>, snd (checkExpiry (3 * Hour) ?s0))"
    by (simp add: tick checkExpiry_report) (simp add: outside_window_def too_early_def ex_defs)
  from window_transitions_logged_once [OF ex_new [unfolded ex_new_def] one two]
  have "filter window_line (snd (checkExpiry (3 * Hour) ?s0)) = [LogExpired ''ca.crl'' (2 * Hour) 0]"
    by (simp add: outside_window_def too_early_def reported_outside_def) (simp add: ex_defs)
  with one two show ?thesis by simp
qed

end
