(* ===== verification/HTTPSource.thy ===== *)
theory HTTPSource
  imports SourceTypes TTLCache
begin

text \<open>
  \<open>internal/source/http.go\<close>: the source that asks a CA's REST API.  What the network and the clock do
  during one lookup is the record \<open>http_env\<close>: the outcome of each attempt (a reply whose body has been
  through the JSON decoder, or a transport error), whether the context ends before an attempt or
  during a back-off wait, and the clock readings.  The file read and the PEM pool of the constructor
  are parameters.
\<close>

section \<open>Data\<close>

record ResponseMapping =
  PathTemplate :: string
  StatusField :: string
  GoodValues :: "string list"
  RevokedValues :: "string list"

record httpCacheEntry =
  hc_status :: CertStatus
  hc_expiresAt :: Time

record http_client =
  hcl_Timeout :: Duration
  hcl_MinVersion :: nat
  hcl_RootCAs :: "bytes option"

record HTTPSource =
  hs_baseURL :: string
  hs_httpClient :: http_client
  hs_mapping :: ResponseMapping
  hs_maxAttempts :: int
  hs_backoff :: Duration
  hs_cache :: "(string \<times> httpCacheEntry) list"
  hs_cacheTTL :: Duration
  hs_healthy :: bool
  hs_observer :: bool

text \<open>
  A decoded JSON object.  Only whether a value is a string matters to the program.  A body \<open>null\<close>
  decodes to the empty map.
\<close>

datatype json_value = JString string | JNotString

datatype http_reply =
    TransportFailed transport_error
  | Reply nat "transport_error + (string \<rightharpoonup> json_value)"

record http_env = call_env +
  hx_start :: Time
  hx_badURL :: "string \<Rightarrow> bool"
  hx_ctxAt :: "int \<Rightarrow> ctx_error option"
  hx_waitDone :: "int \<Rightarrow> ctx_error option"
  hx_exchange :: "int \<Rightarrow> string \<Rightarrow> http_reply"
  hx_revokedNow :: "int \<Rightarrow> Time"
  hx_end :: Time
  hx_storeNow :: Time

section \<open>Construction\<close>

definition defaultPathTemplate :: string where
  "defaultPathTemplate = ''/1.0/certificates/{serial}''"

definition defaultStatusField :: string where
  "defaultStatusField = ''status''"

definition defaultGoodValues :: "string list" where
  "defaultGoodValues = [''active'', ''valid'']"

definition defaultRevokedValues :: "string list" where
  "defaultRevokedValues = [''revoked'']"

definition tls_VersionTLS12 :: nat where
  "tls_VersionTLS12 = 771"

definition mapping_defaults :: "ResponseMapping \<Rightarrow> ResponseMapping" where
  "mapping_defaults m =
     \<lparr>PathTemplate = (if PathTemplate m = '''' then defaultPathTemplate else PathTemplate m),
      StatusField = (if StatusField m = '''' then defaultStatusField else StatusField m),
      GoodValues = (if GoodValues m = [] then defaultGoodValues else GoodValues m),
      RevokedValues = (if RevokedValues m = [] then defaultRevokedValues else RevokedValues m)\<rparr>"

definition NewHTTPSource ::
  "(string \<Rightarrow> bytes option) \<Rightarrow> (bytes \<Rightarrow> bool) \<Rightarrow> string \<Rightarrow> string \<Rightarrow> Duration \<Rightarrow> ResponseMapping \<Rightarrow> int
     \<Rightarrow> Duration \<Rightarrow> Duration \<Rightarrow> source_error + HTTPSource" where
  "NewHTTPSource readFile hasPEM baseURL rootCertFile timeout mapping maxRetries retryBackoff cacheTTL =
     (if baseURL = '''' then Inl EmptyBaseURL
      else
        case (if rootCertFile = '''' then Inr None
              else case readFile rootCertFile of
                     None \<Rightarrow> Inl RootCertUnreadable
                   | Some pem \<Rightarrow> if \<not> hasPEM pem then Inl (RootCertNoPEM rootCertFile) else Inr (Some pem)) of
          Inl err \<Rightarrow> Inl err
        | Inr pool \<Rightarrow>
            Inr \<lparr>hs_baseURL = TrimRight baseURL (CHR ''/''),
                 hs_httpClient = \<lparr>hcl_Timeout = timeout, hcl_MinVersion = tls_VersionTLS12, hcl_RootCAs = pool\<rparr>,
                 hs_mapping = mapping_defaults mapping,
                 hs_maxAttempts = (if maxRetries \<le> 0 then 3 else maxRetries),
                 hs_backoff = (if retryBackoff \<le> 0 then 500 * Millisecond else retryBackoff),
                 hs_cache = [], hs_cacheTTL = cacheTTL, hs_healthy = True, hs_observer = False\<rparr>)"

definition HTTPSource_Name :: "HTTPSource \<Rightarrow> string" where
  "HTTPSource_Name s = ''http''"

definition HTTPSource_Healthy :: "Time \<Rightarrow> HTTPSource \<Rightarrow> bool" where
  "HTTPSource_Healthy now s = hs_healthy s"

definition SetObserver :: "bool \<Rightarrow> HTTPSource \<Rightarrow> HTTPSource" where
  "SetObserver observer s = s\<lparr>hs_observer := observer\<rparr>"

section \<open>One exchange\<close>

fun contains :: "string list \<Rightarrow> string \<Rightarrow> bool" where
  "contains [] val = False"
| "contains (v # list) val = (if v = val then True else contains list val)"

definition recordUnmapped :: "HTTPSource \<Rightarrow> metric_call list" where
  "recordUnmapped s = (if hs_observer s then [RecordSourceError (HTTPSource_Name s) ''unmapped''] else [])"

abbreviation plain_status :: "Status \<Rightarrow> CertStatus" where
  "plain_status st \<equiv> \<lparr>cs_Status = st, cs_RevocationInfo = None, cs_SourceNextUpdate = 0\<rparr>"

definition fetchOnce ::
  "http_env \<Rightarrow> HTTPSource \<Rightarrow> int \<Rightarrow> string \<Rightarrow> (source_error + CertStatus) \<times> bool \<times> metric_call list" where
  "fetchOnce e s attempt url =
     (if hx_badURL e url then (Inl CreatingRequest, False, [])
      else case hx_exchange e attempt url of
        TransportFailed err \<Rightarrow> (Inl (HttpGetFailed err), True, [])
      | Reply code body \<Rightarrow>
          if code = 404 then (Inr (plain_status StatusUnknown), False, [])
          else if code = 200 then
            (case body of
               Inl err \<Rightarrow> (Inl (DecodingResponse err), False, [])
             | Inr obj \<Rightarrow>
                 (case obj (StatusField (hs_mapping s)) of
                    None \<Rightarrow> (Inr (plain_status StatusUnknown), False, recordUnmapped s)
                  | Some val \<Rightarrow>
                      (let strVal = (case val of JString v \<Rightarrow> v | JNotString \<Rightarrow> '''') in
                       if contains (GoodValues (hs_mapping s)) strVal
                       then (Inr (plain_status StatusGood), False, [])
                       else if contains (RevokedValues (hs_mapping s)) strVal
                       then (Inr \<lparr>cs_Status = StatusRevoked,
                                  cs_RevocationInfo = Some \<lparr>RevokedAt = hx_revokedNow e attempt, Reason = 0\<rparr>,
                                  cs_SourceNextUpdate = 0\<rparr>, False, [])
                       else (Inr (plain_status StatusUnknown), False, recordUnmapped s))))
          else (Inl (UnexpectedStatusCode code), True, []))"

section \<open>Retries\<close>

text \<open>
  The retry loop; the last component of the result lists the timers started for the back-off waits.
\<close>

function fetch_attempts ::
  "http_env \<Rightarrow> HTTPSource \<Rightarrow> string \<Rightarrow> int \<Rightarrow> Duration \<Rightarrow> source_error option
     \<Rightarrow> (source_error + CertStatus) \<times> metric_call list \<times> Duration list" where
  "fetch_attempts e s url attempt backoff lastErr =
     (if attempt < hs_maxAttempts s then
        case hx_ctxAt e attempt of
          Some err \<Rightarrow> (Inl (CtxErr err), [], [])
        | None \<Rightarrow>
            case (if attempt > 0 then hx_waitDone e attempt else None) of
              Some err \<Rightarrow> (Inl (CtxErr err), [], [backoff])
            | None \<Rightarrow>
                let timers = (if attempt > 0 then [backoff] else []);
                    backoff' = (if attempt > 0 then wrap64 (2 * backoff) else backoff);
                    m_retry = (if attempt > 0 \<and> hs_observer s then [RecordSourceRetry (HTTPSource_Name s)] else []);
                    (res, retry, m_once) = fetchOnce e s attempt url
                in case res of
                     Inr cs \<Rightarrow> (Inr cs, m_retry @ m_once, timers)
                   | Inl err \<Rightarrow>
                       if \<not> retry then (Inl err, m_retry @ m_once, timers)
                       else
                         let (res', ms, ts) = fetch_attempts e s url (attempt + 1) backoff' (Some err)
                         in (res', m_retry @ m_once @ ms, timers @ ts)
      else (Inl (AllAttemptsFailed (hs_maxAttempts s) lastErr), [], []))"
  by pat_completeness auto
termination
  by (relation "measure (\<lambda>(e, s, url, attempt, backoff, lastErr). nat (hs_maxAttempts s - attempt))") auto

declare fetch_attempts.simps [simp del]

definition fetchWithRetry ::
  "http_env \<Rightarrow> HTTPSource \<Rightarrow> string \<Rightarrow> (source_error + CertStatus) \<times> metric_call list \<times> Duration list" where
  "fetchWithRetry e s url = fetch_attempts e s url 0 (hs_backoff s) None"

section \<open>Error classes\<close>

fun unwraps_to :: "source_error \<Rightarrow> ctx_error \<Rightarrow> bool" where
  "unwraps_to (CtxErr c) c' = (c = c')"
| "unwraps_to (HttpGetFailed t) c' = (t = TransportCtx c')"
| "unwraps_to (DecodingResponse t) c' = (t = TransportCtx c')"
| "unwraps_to (AllAttemptsFailed n None) c' = False"
| "unwraps_to (AllAttemptsFailed n (Some err)) c' = unwraps_to err c'"
| "unwraps_to _ c' = False"

definition classifyHTTPSourceError :: "source_error option \<Rightarrow> string" where
  "classifyHTTPSourceError err =
     (case err of
        None \<Rightarrow> ''none''
      | Some er \<Rightarrow>
          if unwraps_to er DeadlineExceeded then ''timeout''
          else if unwraps_to er Canceled then ''canceled''
          else ''transport_or_upstream'')"

section \<open>Lookup\<close>

definition lookup_url :: "HTTPSource \<Rightarrow> int \<Rightarrow> string" where
  "lookup_url s serial =
     hs_baseURL s @ ReplaceAll (PathTemplate (hs_mapping s)) ''{serial}'' (ToUpper (big_Text 16 serial))"

text \<open>The cache check at the head of \<open>GetStatus\<close>: a live answer, and the map without a stale one.\<close>

definition http_cache_check ::
  "Time \<Rightarrow> string \<Rightarrow> (string \<times> httpCacheEntry) list \<Rightarrow> CertStatus option \<times> (string \<times> httpCacheEntry) list" where
  "http_cache_check now key c =
     (case map_of c key of
        None \<Rightarrow> (None, c)
      | Some entry \<Rightarrow>
          if Before now (hc_expiresAt entry) then (Some (hc_status entry), c)
          else (None, AList.delete key c))"

definition http_cache_store ::
  "Duration \<Rightarrow> Time \<Rightarrow> string \<Rightarrow> CertStatus \<Rightarrow> (string \<times> httpCacheEntry) list \<Rightarrow> (string \<times> httpCacheEntry) list" where
  "http_cache_store ttl now key cs c =
     (if ttl > 0 then AList.update key \<lparr>hc_status = cs, hc_expiresAt = Time_Add now ttl\<rparr> c else c)"

definition HTTPSource_GetStatus ::
  "http_env \<Rightarrow> int \<Rightarrow> Certificate option \<Rightarrow> HTTPSource
     \<Rightarrow> (source_error + CertStatus option) \<times> HTTPSource \<times> metric_call list" where
  "HTTPSource_GetStatus e serial issuer s =
     (case ce_ctxErr e of
        Some err \<Rightarrow> (Inl (CtxErr err), s, [])
      | None \<Rightarrow>
          (let key = big_String serial;
               (hit, c1) = (if hs_healthy s then http_cache_check (ce_now e) key (hs_cache s) else (None, hs_cache s));
               s1 = s\<lparr>hs_cache := c1\<rparr>
           in case hit of
                Some cs \<Rightarrow> (Inr (Some cs), s1, [])
              | None \<Rightarrow>
                  (let url = lookup_url s1 serial;
                       (res, m_fetch, timers) = fetchWithRetry e s1 url;
                       m_lat = (if hs_observer s1
                                then [RecordSourceLatency (HTTPSource_Name s1) (Time_Sub (hx_end e) (hx_start e))] else [])
                   in case res of
                        Inl err \<Rightarrow>
                          (Inl err, s1\<lparr>hs_healthy := False\<rparr>,
                           m_fetch @ m_lat @
                             (if hs_observer s1
                              then [RecordSourceError (HTTPSource_Name s1) (classifyHTTPSourceError (Some err))] else []))
                      | Inr cs \<Rightarrow>
                          (Inr (Some cs),
                           s1\<lparr>hs_healthy := True,
                              hs_cache := http_cache_store (hs_cacheTTL s1) (hx_storeNow e) key cs (hs_cache s1)\<rparr>,
                           m_fetch @ m_lat))))"

definition http_source :: "(http_env, HTTPSource) Source" where
  "http_source = \<lparr>GetStatus = HTTPSource_GetStatus, Name = HTTPSource_Name, Healthy = HTTPSource_Healthy\<rparr>"

section \<open>What the CA said\<close>

text \<open>
  The meaning of a conclusive reply under the configured mapping, independent of the control flow of
  \<open>fetchOnce\<close>; a reply that is not conclusive has none.
\<close>

definition mapped :: "ResponseMapping \<Rightarrow> json_value option \<Rightarrow> Status" where
  "mapped m v =
     (case v of
        None \<Rightarrow> StatusUnknown
      | Some w \<Rightarrow>
          (let t = (case w of JString txt \<Rightarrow> txt | JNotString \<Rightarrow> '''') in
           if t \<in> set (GoodValues m) then StatusGood
           else if t \<in> set (RevokedValues m) then StatusRevoked else StatusUnknown))"

definition ca_says :: "ResponseMapping \<Rightarrow> http_reply \<Rightarrow> Status option" where
  "ca_says m reply =
     (case reply of
        TransportFailed _ \<Rightarrow> None
      | Reply code body \<Rightarrow>
          if code = 404 then Some StatusUnknown
          else if code = 200 then (case body of Inl _ \<Rightarrow> None | Inr obj \<Rightarrow> Some (mapped m (obj (StatusField m))))
          else None)"

definition retryable :: "http_reply \<Rightarrow> bool" where
  "retryable reply =
     (case reply of TransportFailed _ \<Rightarrow> True | Reply code _ \<Rightarrow> code \<noteq> 404 \<and> code \<noteq> 200)"

lemma contains_iff: "contains l v \<longleftrightarrow> v \<in> set l"
  by (induction l) auto

lemma fetchOnce_Inr:
  assumes "fetchOnce e s a url = (Inr cs, retry, ms)"
  shows "\<not> hx_badURL e url" and "ca_says (hs_mapping s) (hx_exchange e a url) = Some (cs_Status cs)"
    and "cs_RevocationInfo cs =
      (if cs_Status cs = StatusRevoked then Some \<lparr>RevokedAt = hx_revokedNow e a, Reason = 0\<rparr> else None)"
    and "cs_SourceNextUpdate cs = 0"
  using assms
  by (auto simp: fetchOnce_def ca_says_def mapped_def contains_iff Let_def
      split: if_splits http_reply.splits sum.splits option.splits)

lemma mapped_named: "mapped m v \<in> {StatusGood, StatusRevoked, StatusUnknown}"
  by (auto simp: mapped_def Let_def split: option.splits)

lemma ca_says_named: "ca_says m reply = Some st \<Longrightarrow> st \<in> {StatusGood, StatusRevoked, StatusUnknown}"
  using mapped_named by (fastforce simp: ca_says_def split: http_reply.splits if_splits sum.splits)

lemma fetchOnce_retry:
  "fst (snd (fetchOnce e s a url)) \<longleftrightarrow> \<not> hx_badURL e url \<and> retryable (hx_exchange e a url)"
  by (auto simp: fetchOnce_def retryable_def Let_def
      split: http_reply.splits sum.splits option.splits)

lemma fetchOnce_retry_error: "fetchOnce e s a url = (res, True, ms) \<Longrightarrow> \<exists>err. res = Inl err"
  by (auto simp: fetchOnce_def Let_def split: if_splits http_reply.splits sum.splits option.splits)

section \<open>The retry loop\<close>

lemma fetch_attempts_Inr:
  assumes "fetch_attempts e s url a b le = (Inr cs, ms, ts)"
  shows "\<exists>k m. a \<le> k \<and> k < hs_maxAttempts s \<and> fetchOnce e s k url = (Inr cs, False, m)"
  using assms
proof (induction e s url a b le arbitrary: ms ts rule: fetch_attempts.induct)
  case (1 e s url a b le)
  obtain res retry m where f: "fetchOnce e s a url = (res, retry, m)" by (metis prod_cases3)
  from 1(2) have a: "a < hs_maxAttempts s" and c: "hx_ctxAt e a = None"
    and w: "(if a > 0 then hx_waitDone e a else None) = None"
    by (simp_all add: fetch_attempts.simps [of e s url a] split: if_splits option.splits)
  show ?case
  proof (cases res)
    case (Inl err)
    let ?b = "if a > 0 then wrap64 (2 * b) else b"
    from 1(2) Inl a c w f have retry by (auto simp: fetch_attempts.simps [of e s url a] Let_def split: if_splits)
    obtain res' ms' ts' where r: "fetch_attempts e s url (a + 1) ?b (Some err) = (res', ms', ts')"
      by (metis prod_cases3)
    with 1(2) Inl a c w f \<open>retry\<close> have "res' = Inr cs"
      by (auto simp: fetch_attempts.simps [of e s url a] Let_def split: if_splits)
    with r have r': "fetch_attempts e s url (a + 1) ?b (Some err) = (Inr cs, ms', ts')" by simp
    have "\<not> \<not> retry" using \<open>retry\<close> by simp
    from 1(1) [OF a c w refl refl refl refl f [symmetric] refl Inl this r']
    obtain k m' where "a + 1 \<le> k" "k < hs_maxAttempts s" "fetchOnce e s k url = (Inr cs, False, m')" by blast
    then show ?thesis by (intro exI [of _ k] exI [of _ m']) simp
  next
    case (Inr cs')
    with 1(2) a c w f have "cs' = cs" by (auto simp: fetch_attempts.simps [of e s url a] Let_def split: if_splits)
    moreover have "\<not> retry" using fetchOnce_retry_error f Inr by (metis (full_types) Inl_Inr_False)
    ultimately show ?thesis using a f Inr by auto
  qed
qed

text \<open>The attempt that decides: the first that does not ask for a retry, if there is one.\<close>

definition deciding :: "http_env \<Rightarrow> HTTPSource \<Rightarrow> string \<Rightarrow> int \<Rightarrow> int option" where
  "deciding e s url a = find (\<lambda>j. hx_badURL e url \<or> \<not> retryable (hx_exchange e j url)) [a..hs_maxAttempts s - 1]"

definition attempt_error :: "http_env \<Rightarrow> HTTPSource \<Rightarrow> string \<Rightarrow> int \<Rightarrow> source_error option" where
  "attempt_error e s url j = (case fst (fetchOnce e s j url) of Inl err \<Rightarrow> Some err | Inr _ \<Rightarrow> None)"

definition undisturbed :: "http_env \<Rightarrow> bool" where
  "undisturbed e \<longleftrightarrow> (\<forall>j. hx_ctxAt e j = None \<and> hx_waitDone e j = None)"

lemma deciding_step:
  "deciding e s url a =
     (if a < hs_maxAttempts s then
        if fst (snd (fetchOnce e s a url)) then deciding e s url (a + 1) else Some a
      else None)"
  by (auto simp: deciding_def fetchOnce_retry upto_rec1)

lemma deciding_ge: "deciding e s url a = Some k \<Longrightarrow> a \<le> k"
  by (auto simp: deciding_def find_Some_iff)

abbreviation backoffs :: "int \<Rightarrow> Duration \<Rightarrow> int \<Rightarrow> Duration list" where
  "backoffs a b l \<equiv> map (\<lambda>j. wrap64 (2 ^ nat (j - max a 1) * b)) [max a 1..l]"

lemma timers_shift:
  assumes "in_int64 b" and "0 \<le> a" and "a \<le> l"
  shows "backoffs a b l =
     (if a > 0 then [b] else []) @ backoffs (a + 1) (if a > 0 then wrap64 (2 * b) else b) l"
proof (cases "a > 0")
  case True
  have "wrap64 (2 ^ nat (j - (a + 1)) * wrap64 (2 * b)) = wrap64 (2 ^ nat (j - a) * b)" if "a + 1 \<le> j" for j
  proof -
    from that have "nat (j - a) = Suc (nat (j - (a + 1)))" by simp
    then show ?thesis unfolding wrap64_mult_left by (simp add: mult_ac)
  qed
  then have "map (\<lambda>j. wrap64 (2 ^ nat (j - (a + 1)) * wrap64 (2 * b))) [a + 1..l]
      = map (\<lambda>j. wrap64 (2 ^ nat (j - a) * b)) [a + 1..l]"
    by (intro map_cong refl) simp
  with True assms show ?thesis by (simp add: upto_rec1 [of a l])
qed (use assms in auto)

lemma fetch_attempts_quiet:
  assumes "undisturbed e"
  shows "fetch_attempts e s url a b le = (res, ms, ts) \<Longrightarrow> in_int64 b \<Longrightarrow> 0 \<le> a \<Longrightarrow>
    res = (case deciding e s url a of
             Some k \<Rightarrow> fst (fetchOnce e s k url)
           | None \<Rightarrow> Inl (AllAttemptsFailed (hs_maxAttempts s)
                       (if a < hs_maxAttempts s then attempt_error e s url (hs_maxAttempts s - 1) else le))) \<and>
    ts = backoffs a b (case deciding e s url a of Some k \<Rightarrow> k | None \<Rightarrow> hs_maxAttempts s - 1)"
proof (induction "nat (hs_maxAttempts s - a)" arbitrary: a b le res ms ts rule: less_induct)
  case less
  obtain r retry m where f: "fetchOnce e s a url = (r, retry, m)" by (metis prod_cases3)
  note unf = fetch_attempts.simps [of e s url a b le] and d = deciding_step [of e s url a]
  show ?case
  proof (cases "a < hs_maxAttempts s")
    case False
    with less.prems show ?thesis by (simp add: unf d)
  next
    case a: True
    show ?thesis
    proof (cases retry)
      case False
      then have dec: "deciding e s url a = Some a" using a by (simp add: d f)
      from False a f less.prems(1) assms have "res = r \<and> ts = (if a > 0 then [b] else [])"
        by (auto simp: unf undisturbed_def Let_def split: sum.splits)
      with dec f less.prems show ?thesis by (auto simp: upto.simps)
    next
      case True
      with fetchOnce_retry_error [of e s a url r m] f obtain err where r: "r = Inl err" by auto
      let ?b = "if a > 0 then wrap64 (2 * b) else b"
      obtain res' ms' ts' where rc: "fetch_attempts e s url (a + 1) ?b (Some err) = (res', ms', ts')"
        by (metis prod_cases3)
      have eqs: "res = res'" "ts = (if a > 0 then [b] else []) @ ts'"
        using True a f r less.prems(1) assms rc by (auto simp: unf undisturbed_def Let_def split: if_splits)
      have dec: "deciding e s url a = deciding e s url (a + 1)" using True a by (simp add: d f)
      have "in_int64 ?b" using less.prems(2) by simp
      from less.hyps [OF _ rc this] a less.prems(3)
      have ih: "res' = (case deciding e s url (a + 1) of
             Some k \<Rightarrow> fst (fetchOnce e s k url)
           | None \<Rightarrow> Inl (AllAttemptsFailed (hs_maxAttempts s)
               (if a + 1 < hs_maxAttempts s then attempt_error e s url (hs_maxAttempts s - 1) else Some err)))"
        "ts' = backoffs (a + 1) ?b (case deciding e s url (a + 1) of Some k \<Rightarrow> k | None \<Rightarrow> hs_maxAttempts s - 1)"
        by simp_all
      have "a \<le> (case deciding e s url (a + 1) of Some k \<Rightarrow> k | None \<Rightarrow> hs_maxAttempts s - 1)"
        using a deciding_ge [of e s url "a + 1"] by (fastforce split: option.splits)
      note shift = timers_shift [OF less.prems(2,3) this]
      have "a + 1 < hs_maxAttempts s \<or> attempt_error e s url (hs_maxAttempts s - 1) = Some err"
        using a f r by (cases "hs_maxAttempts s = a + 1") (auto simp: attempt_error_def)
      with a have "res = (case deciding e s url a of
             Some k \<Rightarrow> fst (fetchOnce e s k url)
           | None \<Rightarrow> Inl (AllAttemptsFailed (hs_maxAttempts s)
               (if a < hs_maxAttempts s then attempt_error e s url (hs_maxAttempts s - 1) else le)))"
        unfolding eqs(1) dec ih(1) by (auto split: option.splits)
      then show ?thesis unfolding eqs(2) dec ih(2) shift by blast
    qed
  qed
qed

section \<open>The answer cache\<close>

definition hc_entry :: "(string \<times> httpCacheEntry) list \<Rightarrow> string \<Rightarrow> (CertStatus \<times> Time) option" where
  "hc_entry c k = map_option (\<lambda>e. (hc_status e, hc_expiresAt e)) (map_of c k)"

interpretation answer_cache: ttl_cache hc_entry http_cache_check "\<lambda>ttl. http_cache_store ttl"
  "\<lambda>ttl now. now + ttl" "\<lambda>c. True"
proof
  fix c :: "(string \<times> httpCacheEntry) list" and k k' :: string and v w :: CertStatus and x now t ttl :: int and e
  note d = http_cache_check_def http_cache_store_def hc_entry_def Before_def Time_Add_def
  show "fst (http_cache_check now k c) = Some v \<longleftrightarrow> (\<exists>x. hc_entry c k = Some (v, x) \<and> now < x)"
    by (auto simp: d split: option.splits)
  show "hc_entry (snd (http_cache_check now k c)) k' = Some e \<Longrightarrow> hc_entry c k' = Some e"
    by (cases "k' = k") (auto simp: d delete_conv' split: option.splits if_splits)
  show "hc_entry c k' = Some (v, x) \<Longrightarrow> now < x \<Longrightarrow> hc_entry (snd (http_cache_check now k c)) k' = Some (v, x)"
    by (cases "k' = k") (auto simp: d delete_conv' split: option.splits)
  show "hc_entry (http_cache_store ttl t k v c) k' = Some (w, x) \<Longrightarrow>
      hc_entry c k' = Some (w, x) \<or> k' = k \<and> w = v \<and> t < x \<and> x \<le> t + ttl"
    by (cases "k' = k") (auto simp: d split: if_splits)
qed simp_all

section \<open>One lookup\<close>

text \<open>An attempt of this lookup that the CA answered conclusively, and with what.\<close>

definition asked :: "http_env \<Rightarrow> HTTPSource \<Rightarrow> int \<Rightarrow> CertStatus \<Rightarrow> bool" where
  "asked e s n cs \<longleftrightarrow>
     (\<exists>k. 0 \<le> k \<and> k < hs_maxAttempts s \<and>
        ca_says (hs_mapping s) (hx_exchange e k (lookup_url s n)) = Some (cs_Status cs) \<and>
        cs_RevocationInfo cs =
          (if cs_Status cs = StatusRevoked then Some \<lparr>RevokedAt = hx_revokedNow e k, Reason = 0\<rparr> else None) \<and>
        cs_SourceNextUpdate cs = 0)"

definition same_http_config :: "HTTPSource \<Rightarrow> HTTPSource \<Rightarrow> bool" where
  "same_http_config s s' \<longleftrightarrow>
     hs_baseURL s' = hs_baseURL s \<and> hs_mapping s' = hs_mapping s \<and> hs_maxAttempts s' = hs_maxAttempts s \<and>
     hs_backoff s' = hs_backoff s \<and> hs_cacheTTL s' = hs_cacheTTL s \<and> hs_observer s' = hs_observer s"

abbreviation live_answer :: "http_env \<Rightarrow> HTTPSource \<Rightarrow> int \<Rightarrow> CertStatus \<Rightarrow> bool" where
  "live_answer e s n cs \<equiv> hs_healthy s \<and> fst (http_cache_check (ce_now e) (big_String n) (hs_cache s)) = Some cs"

lemma asked_config: "same_http_config s s' \<Longrightarrow> asked e s' n cs \<longleftrightarrow> asked e s n cs"
  by (simp add: asked_def same_http_config_def lookup_url_def)

lemma fetchWithRetry_asked:
  assumes "fetchWithRetry e s (lookup_url s n) = (Inr cs, ms, ts)"
  shows "asked e s n cs"
proof -
  from fetch_attempts_Inr [OF assms [unfolded fetchWithRetry_def]] obtain k m
    where k: "0 \<le> k" "k < hs_maxAttempts s" "fetchOnce e s k (lookup_url s n) = (Inr cs, False, m)" by blast
  from fetchOnce_Inr [OF k(3)] k(1,2) show ?thesis unfolding asked_def by blast
qed

text \<open>The three ways a lookup with a live context ends.\<close>

lemma http_GetStatus_cases:
  assumes "HTTPSource_GetStatus e n i s = (r, s', ms)" and "ce_ctxErr e = None"
  obtains (cached) cs where "r = Inr (Some cs)" "live_answer e s n cs" "s' = s" "ms = []"
  | (asked) cs c1 where "r = Inr (Some cs)" "asked e s n cs"
      "c1 = (if hs_healthy s then snd (http_cache_check (ce_now e) (big_String n) (hs_cache s)) else hs_cache s)"
      "s' = s\<lparr>hs_healthy := True, hs_cache := http_cache_store (hs_cacheTTL s) (hx_storeNow e) (big_String n) cs c1\<rparr>"
      "\<And>cs'. \<not> live_answer e s n cs'"
  | (failed) err c1 where "r = Inl err"
      "c1 = (if hs_healthy s then snd (http_cache_check (ce_now e) (big_String n) (hs_cache s)) else hs_cache s)"
      "s' = s\<lparr>hs_healthy := False, hs_cache := c1\<rparr>" "\<And>cs'. \<not> live_answer e s n cs'"
proof -
  let ?chk = "http_cache_check (ce_now e) (big_String n) (hs_cache s)"
  define c1 where "c1 = (if hs_healthy s then snd ?chk else hs_cache s)"
  have same: "same_http_config s (s\<lparr>hs_cache := c1\<rparr>)" by (simp add: same_http_config_def)
  have url: "lookup_url (s\<lparr>hs_cache := c1\<rparr>) n = lookup_url s n" by (simp add: lookup_url_def)
  show ?thesis
  proof (cases "\<exists>cs. live_answer e s n cs")
    case True
    then obtain cs where l: "live_answer e s n cs" by blast
    then have "snd ?chk = hs_cache s"
      by (auto simp: http_cache_check_def split: option.splits if_splits)
    with l assms show ?thesis
      by (intro that(1) [of cs]) (auto simp: HTTPSource_GetStatus_def Let_def split: prod.splits)
  next
    case False
    obtain res mf ts where f: "fetchWithRetry e (s\<lparr>hs_cache := c1\<rparr>) (lookup_url s n) = (res, mf, ts)"
      by (metis prod_cases3)
    have *: "HTTPSource_GetStatus e n i s = (case res of
          Inl err \<Rightarrow> (Inl err, s\<lparr>hs_healthy := False, hs_cache := c1\<rparr>, snd (snd (HTTPSource_GetStatus e n i s)))
        | Inr cs \<Rightarrow> (Inr (Some cs), s\<lparr>hs_healthy := True,
            hs_cache := http_cache_store (hs_cacheTTL s) (hx_storeNow e) (big_String n) cs c1\<rparr>,
            snd (snd (HTTPSource_GetStatus e n i s))))"
      using False assms(2) f url
      by (cases "hs_healthy s"; cases "fst ?chk"; cases res)
        (auto simp: HTTPSource_GetStatus_def Let_def c1_def split: prod.splits)
    show ?thesis
    proof (cases res)
      case (Inl err)
      with * assms(1) False show ?thesis by (intro that(3) [of err c1]) (auto simp: c1_def)
    next
      case (Inr cs)
      with fetchWithRetry_asked [of e "s\<lparr>hs_cache := c1\<rparr>" n cs] f url asked_config [OF same]
      have "asked e s n cs" by auto
      with Inr * assms(1) False show ?thesis by (intro that(2) [of cs c1]) (auto simp: c1_def)
    qed
  qed
qed

section \<open>The source contract\<close>

definition http_inv :: "HTTPSource \<Rightarrow> bool" where
  "http_inv s \<longleftrightarrow>
     0 < hs_maxAttempts s \<and> (\<forall>k cs x. hc_entry (hs_cache s) k = Some (cs, x) \<longrightarrow> wf_CertStatus cs)"

definition http_states :: "http_env \<Rightarrow> HTTPSource \<Rightarrow> int \<Rightarrow> CertStatus \<Rightarrow> bool" where
  "http_states e s n cs \<longleftrightarrow> live_answer e s n cs \<or> asked e s n cs"

definition http_vouches :: "http_env \<Rightarrow> HTTPSource \<Rightarrow> int \<Rightarrow> bool" where
  "http_vouches e s n \<longleftrightarrow> (\<exists>cs. http_states e s n cs \<and> cs_Status cs = StatusGood)"

definition http_revokes :: "http_env \<Rightarrow> HTTPSource \<Rightarrow> int \<Rightarrow> RevocationInfo \<Rightarrow> bool" where
  "http_revokes e s n i \<longleftrightarrow>
     (\<exists>cs. http_states e s n cs \<and> cs_Status cs = StatusRevoked \<and> cs_RevocationInfo cs = Some i)"

lemma asked_wf: "asked e s n cs \<Longrightarrow> wf_CertStatus cs"
  by (auto simp: asked_def wf_CertStatus.simps dest!: ca_says_named split: Status.splits)

lemma http_GetStatus_answer:
  assumes "HTTPSource_GetStatus e n i s = (Inr (Some cs), s', ms)"
  shows "http_states e s n cs" and "ce_ctxErr e = None"
proof -
  from assms show c: "ce_ctxErr e = None"
    by (cases "ce_ctxErr e") (auto simp: HTTPSource_GetStatus_def)
  from http_GetStatus_cases [OF assms c] show "http_states e s n cs"
    by (cases rule: http_GetStatus_cases [OF assms c]) (auto simp: http_states_def)
qed

lemma http_states_wf:
  assumes "http_inv s" and "http_states e s n cs"
  shows "wf_CertStatus cs"
  using assms answer_cache.lookup_live [of "ce_now e" "big_String n" "hs_cache s" cs]
  by (auto simp: http_states_def http_inv_def dest: asked_wf)

lemma check_wf:
  assumes "http_inv s"
    and "hc_entry (if b then snd (http_cache_check now key (hs_cache s)) else hs_cache s) k = Some (cs, x)"
  shows "wf_CertStatus cs"
  using assms answer_cache.lookup_sub [of now key "hs_cache s" k "(cs, x)"]
  by (auto simp: http_inv_def split: if_splits)

lemma http_GetStatus_inv:
  assumes inv: "http_inv s" and eq: "HTTPSource_GetStatus e n i s = (r, s', ms)"
  shows "http_inv s'" and "same_http_config s s'"
proof -
  have "http_inv s' \<and> same_http_config s s'"
  proof (cases "ce_ctxErr e")
    case (Some c)
    with eq inv show ?thesis by (auto simp: HTTPSource_GetStatus_def same_http_config_def)
  next
    case None
    show ?thesis
    proof (cases rule: http_GetStatus_cases [OF eq None])
      case (1 cs)
      with inv show ?thesis by (simp add: same_http_config_def)
    next
      case (2 cs c1)
      have "wf_CertStatus w" if "hc_entry (hs_cache s') k = Some (w, x)" for k w x
        using answer_cache.store_entry [of "hs_cacheTTL s" "hx_storeNow e" "big_String n" cs c1 k w x]
          that 2 asked_wf [OF 2(2)] check_wf [OF inv] by auto
      with 2 inv show ?thesis by (auto simp: http_inv_def same_http_config_def)
    next
      case (3 err c1)
      with inv check_wf [OF inv] show ?thesis by (auto simp: http_inv_def same_http_config_def)
    qed
  qed
  then show "http_inv s'" "same_http_config s s'" by blast+
qed

interpretation casrc: status_source http_source http_inv ce_ctxErr http_vouches http_revokes
proof unfold_locales
  show "ce_ctxErr e = Some c \<Longrightarrow> GetStatus http_source e n i s = (Inl (CtxErr c), s, [])" for e :: http_env and c n i s
    by (simp add: http_source_def HTTPSource_GetStatus_def)
qed (auto simp: http_source_def http_vouches_def http_revokes_def
      dest: http_GetStatus_inv(1) http_GetStatus_answer(1) http_states_wf)

lemma observer_call_ascii:
  "source_call (RecordSourceRetry (HTTPSource_Name s))" "source_call (RecordSourceLatency (HTTPSource_Name s) d)"
  "source_call (RecordSourceError (HTTPSource_Name s) (classifyHTTPSourceError err))"
  "list_all source_call (recordUnmapped s)"
  by (simp_all add: source_call_def HTTPSource_Name_def ascii_def classifyHTTPSourceError_def recordUnmapped_def
      split: option.splits)

lemma fetchOnce_calls: "fetchOnce e s a url = (res, retry, ms) \<Longrightarrow> list_all source_call ms"
  by (auto simp: fetchOnce_def Let_def observer_call_ascii split: if_splits http_reply.splits sum.splits option.splits)

lemma fetch_attempts_calls:
  "fetch_attempts e s url a b le = (res, ms, ts) \<Longrightarrow> list_all source_call ms"
proof (induction e s url a b le arbitrary: res ms ts rule: fetch_attempts.induct)
  case (1 e s url a b le)
  obtain fres retry m1 where f: "fetchOnce e s a url = (fres, retry, m1)" by (metis prod_cases3)
  note m1 = fetchOnce_calls [OF f]
  show ?case
    using 1(2) m1 f
    by (subst (asm) fetch_attempts.simps)
      (auto simp: Let_def observer_call_ascii split: if_splits option.splits sum.splits prod.splits dest: 1(1))
qed

interpretation casrc: telemetry_source http_source
proof unfold_locales
  fix e n i s r s' ms
  assume eq: "GetStatus http_source e n i s = (r, s', ms)"
  show "list_all source_call ms"
    using eq by (auto simp: http_source_def HTTPSource_GetStatus_def Let_def fetchWithRetry_def observer_call_ascii
        dest: fetch_attempts_calls split: option.splits prod.splits sum.splits if_splits)
qed (simp add: http_source_def HTTPSource_Name_def ascii_def)

lemma NewHTTPSource_inv:
  assumes "NewHTTPSource rd hp url rootFile tmo m retries bo ttl = Inr s"
  shows "http_inv s" and "hs_cache s = []" and "hs_cacheTTL s = ttl" and "hs_healthy s"
  using assms by (auto simp: NewHTTPSource_def http_inv_def hc_entry_def split: if_splits option.splits sum.splits)

section \<open>Histories of lookups\<close>

type_synonym http_call = "http_env \<times> int \<times> Certificate option"

definition http_run :: "http_call list \<Rightarrow> HTTPSource \<Rightarrow> HTTPSource" where
  "http_run calls s = fold (\<lambda>(e, n, i) s. fst (snd (HTTPSource_GetStatus e n i s))) calls s"

lemma http_run_Nil [simp]: "http_run [] s = s"
  by (simp add: http_run_def)

lemma http_run_snoc [simp]:
  "http_run (calls @ [(e, n, i)]) s = fst (snd (HTTPSource_GetStatus e n i (http_run calls s)))"
  by (simp add: http_run_def)

lemma http_run_inv:
  assumes "http_inv s"
  shows "http_inv (http_run calls s) \<and> same_http_config s (http_run calls s)"
proof (induction calls rule: rev_induct)
  case Nil
  with assms show ?case by (simp add: same_http_config_def)
next
  case (snoc c calls)
  obtain e n i where c: "c = (e, n, i)" by (metis prod_cases3)
  obtain r s' ms where g: "HTTPSource_GetStatus e n i (http_run calls s) = (r, s', ms)" by (metis prod_cases3)
  from http_GetStatus_inv [OF _ g] snoc show ?case by (auto simp: c g same_http_config_def)
qed

text \<open>An entry of the cache after one lookup was there before, or is what the CA just said.\<close>

lemma http_GetStatus_entry:
  assumes eq: "HTTPSource_GetStatus e n i s = (r, s', ms)" and ent: "hc_entry (hs_cache s') k = Some (cs, x)"
  shows "hc_entry (hs_cache s) k = Some (cs, x) \<or>
    k = big_String n \<and> asked e s n cs \<and> x \<le> hx_storeNow e + hs_cacheTTL s"
proof (cases "ce_ctxErr e")
  case (Some c)
  with eq ent show ?thesis by (simp add: HTTPSource_GetStatus_def)
next
  case None
  have chk: "hc_entry (if b then snd (http_cache_check now key c) else c) k = Some (cs, x) \<Longrightarrow>
      hc_entry c k = Some (cs, x)" for b now key c
    using answer_cache.lookup_sub [of now key c k "(cs, x)"] by (auto split: if_splits)
  show ?thesis
  proof (cases rule: http_GetStatus_cases [OF eq None])
    case (1 cs')
    with ent show ?thesis by simp
  next
    case (2 cs' c1)
    from answer_cache.store_entry [of "hs_cacheTTL s" "hx_storeNow e" "big_String n" cs' c1 k cs x] ent 2
    have "hc_entry c1 k = Some (cs, x) \<or> k = big_String n \<and> cs = cs' \<and> x \<le> hx_storeNow e + hs_cacheTTL s" by auto
    moreover have "hc_entry c1 k = Some (cs, x) \<Longrightarrow> hc_entry (hs_cache s) k = Some (cs, x)"
      unfolding 2(3) by (rule chk)
    ultimately show ?thesis using 2(2) by blast
  next
    case (3 err c1)
    have "hc_entry c1 k = Some (cs, x) \<Longrightarrow> hc_entry (hs_cache s) k = Some (cs, x)"
      unfolding 3(2) by (rule chk)
    with ent 3(3) show ?thesis by simp
  qed
qed

lemma http_run_entry:
  assumes "http_inv s" and "hs_cache s = []" and "hc_entry (hs_cache (http_run calls s)) k = Some (cs, x)"
  shows "\<exists>pre e n i post. calls = pre @ (e, n, i) # post \<and> k = big_String n \<and> asked e s n cs \<and>
    x \<le> hx_storeNow e + hs_cacheTTL s"
  using assms(3)
proof (induction calls rule: rev_induct)
  case Nil
  with assms(2) show ?case by (simp add: hc_entry_def)
next
  case (snoc c calls)
  obtain e n i where c: "c = (e, n, i)" by (metis prod_cases3)
  obtain r s' ms where g: "HTTPSource_GetStatus e n i (http_run calls s) = (r, s', ms)" by (metis prod_cases3)
  have cfg: "same_http_config s (http_run calls s)" using http_run_inv [OF assms(1)] by blast
  from snoc.prems g c have "hc_entry (hs_cache s') k = Some (cs, x)" by simp
  from http_GetStatus_entry [OF g this] asked_config [OF cfg] cfg
  consider "hc_entry (hs_cache (http_run calls s)) k = Some (cs, x)"
    | "k = big_String n" "asked e s n cs" "x \<le> hx_storeNow e + hs_cacheTTL s"
    by (auto simp: same_http_config_def)
  then show ?case
  proof cases
    case 1
    from snoc.IH [OF this] show ?thesis by (metis append.assoc append_Cons)
  next
    case 2
    then show ?thesis unfolding c by blast
  qed
qed

section \<open>Different serials, different URLs\<close>

text \<open>The length of the result is linear in the length of the replacement.\<close>

lemma length_ReplaceAll:
  assumes "old \<noteq> []"
  shows "\<exists>a c. (\<forall>new. length (ReplaceAll s old new) = a + c * length new) \<and>
    ((\<exists>p q. s = p @ old @ q) \<longrightarrow> 0 < c)"
proof (induction "length s" arbitrary: s rule: less_induct)
  case less
  show ?case
  proof (cases "HasPrefix s old")
    case True
    then obtain r where r: "s = old @ r" by (auto simp: HasPrefix_iff)
    then have "length r < length s" using assms by simp
    from less [OF this] obtain b c
      where "\<forall>new. length (ReplaceAll r old new) = b + c * length new" by blast
    then show ?thesis
      by (intro exI [of _ b] exI [of _ "Suc c"]) (simp add: r ReplaceAll_hit [OF assms])
  next
    case False
    show ?thesis
    proof (cases s)
      case Nil
      with assms show ?thesis by (intro exI [of _ 0] exI [of _ 0]) simp
    next
      case (Cons a s')
      then have "length s' < length s" by simp
      from less [OF this] obtain b c
        where c: "\<forall>new. length (ReplaceAll s' old new) = b + c * length new"
          "(\<exists>p q. s' = p @ old @ q) \<longrightarrow> 0 < c" by blast
      have "\<exists>p q. s' = p @ old @ q" if "s = p @ old @ q" for p q
        using that Cons False by (cases p) auto
      with c False show ?thesis by (intro exI [of _ "Suc b"] exI [of _ c]) (auto simp: Cons ReplaceAll_miss)
    qed
  qed
qed

lemma ReplaceAll_inject_eq_length:
  assumes "old \<noteq> []" and "length n1 = length n2" and "ReplaceAll (p @ old @ q) old n1 = ReplaceAll (p @ old @ q) old n2"
  shows "n1 = n2"
  using assms
proof (induction "length p" arbitrary: p rule: less_induct)
  case less
  let ?s = "p @ old @ q"
  show ?case
  proof (cases "HasPrefix ?s old")
    case True
    then obtain r where r: "?s = old @ r" by (auto simp: HasPrefix_iff)
    from less.prems show ?thesis unfolding r by (simp add: ReplaceAll_hit)
  next
    case False
    then obtain c p' where p: "p = c # p'" by (cases p) auto
    with False less.prems(3) have "ReplaceAll (p' @ old @ q) old n1 = ReplaceAll (p' @ old @ q) old n2"
      by (simp add: ReplaceAll_miss)
    from less.hyps [OF _ less.prems(1,2) this] show ?thesis by (simp add: p)
  qed
qed

lemma ReplaceAll_inject:
  assumes "old \<noteq> []" and "ReplaceAll (p @ old @ q) old n1 = ReplaceAll (p @ old @ q) old n2"
  shows "n1 = n2"
proof -
  from length_ReplaceAll [OF assms(1), of "p @ old @ q"] obtain b c where "0 < c"
    "\<And>new. length (ReplaceAll (p @ old @ q) old new) = b + c * length new"
    by blast
  then have "length n1 = length n2" using assms(2) by (metis add_left_cancel mult_cancel1 not_gr0)
  from ReplaceAll_inject_eq_length [OF assms(1) this assms(2)] show ?thesis .
qed

lemma ReplaceAll_absent:
  "(\<And>pre post. s \<noteq> pre @ old @ post) \<Longrightarrow> ReplaceAll s old new = s"
proof (induction s)
  case (Cons c s)
  from Cons.prems [of "[]"] have "\<not> HasPrefix (c # s) old" by (auto simp: HasPrefix_iff)
  moreover have "s \<noteq> pre @ old @ post" for pre post using Cons.prems [of "c # pre" post] by auto
  ultimately show ?case using Cons.IH by (simp add: ReplaceAll_miss)
qed simp

lemma upper_digit_char: "d < 16 \<Longrightarrow> lower_char (upper_char (digit_char d)) = digit_char d"
  by (drule less_16_cases) (auto simp: digit_char_def upper_char_def lower_char_def char_of_eq_iff)

lemma lower_upper_nat_text:
  assumes "2 \<le> b" and "b \<le> 16"
  shows "ToLower (ToUpper (nat_text b n)) = nat_text b n"
  using assms
proof (induction b n rule: nat_text.induct)
  case (1 b n)
  have m: "n mod b < 16" using 1 by (intro less_le_trans [OF mod_less_divisor]) auto
  show ?case
  proof (cases "n < b")
    case True
    with 1 show ?thesis by (simp add: nat_text.simps [of b n] ToLower_def ToUpper_def upper_digit_char)
  next
    case False
    with 1 m show ?thesis by (simp add: nat_text.simps [of b n] ToLower_def ToUpper_def upper_digit_char)
  qed
qed

lemma lower_upper_big_Text: "ToLower (ToUpper (big_Text 16 n)) = big_Text 16 n"
proof -
  have "lower_char (upper_char (CHR ''-'')) = CHR ''-''" by (simp add: upper_char_def lower_char_def)
  then show ?thesis
    using lower_upper_nat_text [of 16] by (simp add: big_Text_def ToLower_def ToUpper_def)
qed

section \<open>Properties\<close>

text \<open>
  C15: whatever the history of lookups on a source that \<open>NewHTTPSource\<close> built, a status it returns for a
  serial was stated by the CA for that very serial, in a conclusive reply to one of the attempts of
  this lookup, or of an earlier lookup whose answer was stored less than the configured cache TTL
  ago; the status is the configured mapping of that reply.
\<close>
theorem http_answers_from_CA:
  assumes "NewHTTPSource rd hp base rootFile tmo m retries bo ttl = Inr s0"
    and "HTTPSource_GetStatus e n i (http_run calls (SetObserver obs s0)) = (Inr (Some cs), s', ms)"
  shows "\<exists>pre e' i' post k. calls @ [(e, n, i)] = pre @ (e', n, i') # post \<and>
    0 \<le> k \<and> k < hs_maxAttempts s0 \<and>
    ca_says (hs_mapping s0) (hx_exchange e' k (lookup_url s0 n)) = Some (cs_Status cs) \<and>
    (post = [] \<or> ce_now e < hx_storeNow e' + ttl)"
proof -
  let ?s = "SetObserver obs s0"
  note new = NewHTTPSource_inv [OF assms(1)]
  have inv: "http_inv ?s" and empty: "hs_cache ?s = []" and ttl: "hs_cacheTTL ?s = ttl"
    using new by (simp_all add: SetObserver_def http_inv_def)
  have asked0: "asked e' ?s n cs \<Longrightarrow> \<exists>k. 0 \<le> k \<and> k < hs_maxAttempts s0 \<and>
      ca_says (hs_mapping s0) (hx_exchange e' k (lookup_url s0 n)) = Some (cs_Status cs)" for e'
    by (auto simp: asked_def SetObserver_def lookup_url_def)
  have cfg: "same_http_config ?s (http_run calls ?s)" using http_run_inv [OF inv] by blast
  from http_GetStatus_answer(1) [OF assms(2)] asked_config [OF cfg]
  consider "asked e ?s n cs" | "live_answer e (http_run calls ?s) n cs" by (auto simp: http_states_def)
  then show ?thesis
  proof cases
    case 1
    with asked0 show ?thesis by blast
  next
    case 2
    then obtain x where x: "hc_entry (hs_cache (http_run calls ?s)) (big_String n) = Some (cs, x)" "ce_now e < x"
      using answer_cache.lookup_live by blast
    from http_run_entry [OF inv empty x(1)] obtain pre e' i' post
      where p: "calls = pre @ (e', n, i') # post" "asked e' ?s n cs" "x \<le> hx_storeNow e' + ttl"
      by (auto simp: ttl)
    from asked0 [OF p(2)] obtain k where "0 \<le> k" "k < hs_maxAttempts s0"
      "ca_says (hs_mapping s0) (hx_exchange e' k (lookup_url s0 n)) = Some (cs_Status cs)" by blast
    moreover have "ce_now e < hx_storeNow e' + ttl" using x(2) p(3) by simp
    moreover have "calls @ [(e, n, i)] = pre @ (e', n, i') # (post @ [(e, n, i)])" using p(1) by simp
    ultimately show ?thesis by blast
  qed
qed

text \<open>
  C17: when the context stays live and the longest wait fits a \<open>time.Duration\<close>, the retry loop returns what the first attempt that is not
  retryable returned (only transport errors and status codes other than 200 and 404 are retried),
  or, after exactly the configured number of attempts, an error that wraps the last one; it waits
  before every attempt but the first, and the waits double from the configured back-off.
\<close>
theorem retry_loop:
  assumes "undisturbed e" and "0 < hs_maxAttempts s" and "0 < hs_backoff s" and "in_int64 (hs_backoff s)"
    and "in_int64 (2 ^ nat (hs_maxAttempts s - 2) * hs_backoff s)"
    and "fetchWithRetry e s url = (res, ms, timers)"
  shows "case find (\<lambda>j. hx_badURL e url \<or> \<not> retryable (hx_exchange e j url)) [0..hs_maxAttempts s - 1] of
      Some k \<Rightarrow> res = fst (fetchOnce e s k url) \<and> timers = map (\<lambda>j. 2 ^ nat (j - 1) * hs_backoff s) [1..k]
    | None \<Rightarrow>
        res = Inl (AllAttemptsFailed (hs_maxAttempts s) (attempt_error e s url (hs_maxAttempts s - 1))) \<and>
        timers = map (\<lambda>j. 2 ^ nat (j - 1) * hs_backoff s) [1..hs_maxAttempts s - 1]"
proof -
  have exact: "backoffs 0 (hs_backoff s) l = map (\<lambda>j. 2 ^ nat (j - 1) * hs_backoff s) [1..l]"
    if "l < hs_maxAttempts s" for l
  proof (rule map_cong)
    fix j assume "j \<in> set [1..l]"
    with that have "nat (j - 1) \<le> nat (hs_maxAttempts s - 2)" by (intro nat_mono) auto
    then have "(2 :: int) ^ nat (j - 1) * hs_backoff s \<le> 2 ^ nat (hs_maxAttempts s - 2) * hs_backoff s"
      using assms(3) by (intro mult_right_mono power_increasing) auto
    moreover have "0 < (2 :: int) ^ nat (j - 1) * hs_backoff s" using assms(3) by simp
    ultimately have "in_int64 (2 ^ nat (j - 1) * hs_backoff s)"
      using assms(5) unfolding in_int64_def by linarith
    then show "wrap64 (2 ^ nat (j - max 0 1) * hs_backoff s) = 2 ^ nat (j - 1) * hs_backoff s" by simp
  qed simp
  have "deciding e s url 0 = Some k \<Longrightarrow> k < hs_maxAttempts s" for k
    by (auto simp: deciding_def find_Some_iff)
  with fetch_attempts_quiet [OF assms(1) assms(6) [unfolded fetchWithRetry_def] assms(4)] assms(2) exact
  show ?thesis by (auto simp: deciding_def [symmetric] split: option.splits)
qed

text \<open>
  C18: health is the outcome of the last lookup that ran with a live context: it is healthy exactly
  when it returned a status, and a source that was unhealthy recovers only by a status the CA gave
  in that lookup, never by a cached one.
\<close>
theorem http_health:
  assumes "HTTPSource_GetStatus e n i s = (r, s', ms)" and "ce_ctxErr e = None"
  shows "case r of
      Inr (Some cs) \<Rightarrow> hs_healthy s' \<and> (asked e s n cs \<or> live_answer e s n cs)
    | Inr None \<Rightarrow> False
    | Inl err \<Rightarrow> \<not> hs_healthy s'"
  by (cases rule: http_GetStatus_cases [OF assms]) auto

text \<open>
  C19: two lookups go to the same URL exactly when they are for the same serial, or when the path template
  has no \<open>{serial}\<close> placeholder (which construction accepts; only an empty template gets the default).
\<close>
theorem lookup_url_inject:
  "lookup_url s n = lookup_url s n' \<longleftrightarrow>
     n = n' \<or> \<not> (\<exists>pre post. PathTemplate (hs_mapping s) = pre @ ''{serial}'' @ post)"
proof (cases "\<exists>pre post. PathTemplate (hs_mapping s) = pre @ ''{serial}'' @ post")
  case False
  then have "ReplaceAll (PathTemplate (hs_mapping s)) ''{serial}'' v = PathTemplate (hs_mapping s)" for v
    by (intro ReplaceAll_absent) blast
  with False show ?thesis by (simp add: lookup_url_def)
next
  case True
  then obtain pre post where t: "PathTemplate (hs_mapping s) = pre @ ''{serial}'' @ post" by blast
  have "n = n'" if "lookup_url s n = lookup_url s n'"
  proof -
    from that have "ReplaceAll (pre @ ''{serial}'' @ post) ''{serial}'' (ToUpper (big_Text 16 n)) =
        ReplaceAll (pre @ ''{serial}'' @ post) ''{serial}'' (ToUpper (big_Text 16 n'))"
      by (simp only: lookup_url_def t same_append_eq)
    with ReplaceAll_inject have "ToUpper (big_Text 16 n) = ToUpper (big_Text 16 n')" by blast
    then have "big_Text 16 n = big_Text 16 n'" by (metis lower_upper_big_Text)
    then show ?thesis by (intro big_Text_inject [of 16]) simp_all
  qed
  with True show ?thesis by blast
qed

section \<open>Witnesses\<close>

definition ex_http :: HTTPSource where
  "ex_http = \<lparr>hs_baseURL = ''https://ca'',
     hs_httpClient = \<lparr>hcl_Timeout = Second, hcl_MinVersion = 771, hcl_RootCAs = None\<rparr>,
     hs_mapping = \<lparr>PathTemplate = ''/{serial}'', StatusField = ''st'', GoodValues = [''ok''], RevokedValues = [''bad'']\<rparr>,
     hs_maxAttempts = 3, hs_backoff = 500 * Millisecond, hs_cache = [], hs_cacheTTL = Minute, hs_healthy = True,
     hs_observer = False\<rparr>"

text \<open>A CA whose first answer is a 503 and whose second is \<open>ok\<close>.\<close>

definition ex_http_env :: http_env where
  "ex_http_env = \<lparr>ce_ctxErr = None, ce_now = 100, hx_start = 100, hx_badURL = (\<lambda>_. False), hx_ctxAt = (\<lambda>_. None),
     hx_waitDone = (\<lambda>_. None),
     hx_exchange = (\<lambda>k url. if k = 0 then Reply 503 (Inr Map.empty) else Reply 200 (Inr [''st'' \<mapsto> JString ''ok''])),
     hx_revokedNow = (\<lambda>_. 0), hx_end = 700, hx_storeNow = 800\<rparr>"

lemma ex_http_new:
  "NewHTTPSource (\<lambda>_. None) (\<lambda>_. False) ''https://ca/'' '''' Second (hs_mapping ex_http) 3 (500 * Millisecond) Minute
     = Inr ex_http"
  by (simp add: NewHTTPSource_def ex_http_def TrimRight_def mapping_defaults_def tls_VersionTLS12_def)

lemma ex_http_fetch:
  "fetchWithRetry ex_http_env ex_http url = (Inr (plain_status StatusGood), [], [500 * Millisecond])"
  by (simp add: fetchWithRetry_def fetch_attempts.simps ex_http_env_def ex_http_def fetchOnce_def)

definition ex_http_after :: HTTPSource where
  "ex_http_after = ex_http\<lparr>hs_cache := [(''5'', \<lparr>hc_status = plain_status StatusGood, hc_expiresAt = 800 + Minute\<rparr>)]\<rparr>"

lemma big_String_5: "big_String 5 = ''5''"
  by (simp add: big_String_def big_Text_def nat_text.simps digit_char_def)

lemma ex_http_fields:
  "hs_cache ex_http = []" "hs_healthy ex_http" "hs_maxAttempts ex_http = 3" "hs_cacheTTL ex_http = Minute"
  "\<not> hs_observer ex_http" "ex_http\<lparr>hs_cache := []\<rparr> = ex_http" "ex_http\<lparr>hs_healthy := True\<rparr> = ex_http"
  "ce_ctxErr ex_http_env = None" "ce_now ex_http_env = 100" "hx_storeNow ex_http_env = 800"
  by (simp_all add: ex_http_def ex_http_env_def)

lemma ex_http_lookup:
  "HTTPSource_GetStatus ex_http_env 5 None ex_http = (Inr (Some (plain_status StatusGood)), ex_http_after, [])"
  by (simp add: HTTPSource_GetStatus_def ex_http_after_def big_String_5 http_cache_check_def ex_http_fields
      ex_http_fetch http_cache_store_def Time_Add_def)

theorem http_answers_from_CA_witness:
  "\<exists>pre e' i' post k. [(ex_http_env, 5, None)] @ [(ex_http_env, 5, None)] = pre @ (e', 5 :: int, i' :: Certificate option) # post \<and>
     0 \<le> k \<and> k < (3 :: int) \<and>
     ca_says (hs_mapping ex_http) (hx_exchange e' k (lookup_url ex_http 5)) = Some StatusGood \<and>
     (post = [] \<or> 100 < hx_storeNow e' + Minute)"
proof -
  have obs: "SetObserver False ex_http = ex_http" by (simp add: SetObserver_def ex_http_def)
  have run: "http_run [(ex_http_env, 5, None)] ex_http = ex_http_after"
    by (simp add: http_run_def ex_http_lookup)
  have "HTTPSource_GetStatus ex_http_env 5 None ex_http_after = (Inr (Some (plain_status StatusGood)), ex_http_after, [])"
    by (simp add: HTTPSource_GetStatus_def ex_http_after_def ex_http_def ex_http_env_def big_String_5
        http_cache_check_def Before_def)
  from http_answers_from_CA [OF ex_http_new, of ex_http_env 5 None "[(ex_http_env, 5, None)]" False, unfolded obs run, OF this]
  show ?thesis by (simp add: ex_http_fields)
qed

theorem retry_loop_witness:
  "fetchWithRetry ex_http_env ex_http ''u'' = (fst (fetchOnce ex_http_env ex_http 1 ''u''), [], [500 * Millisecond])"
proof -
  have "[0..2] = [0 :: int, 1, 2]" "[1..1] = [1 :: int]" by (simp_all add: upto.simps)
  with retry_loop [OF _ _ _ _ _ ex_http_fetch, of "''u''"] show ?thesis
    unfolding ex_http_fetch
    by (simp add: undisturbed_def ex_http_env_def ex_http_def in_int64_def retryable_def)
qed

theorem http_health_witness:
  "hs_healthy ex_http_after \<and> (asked ex_http_env ex_http 5 (plain_status StatusGood) \<or>
     live_answer ex_http_env ex_http 5 (plain_status StatusGood))"
  using http_health [OF ex_http_lookup] by (simp add: ex_http_env_def)

theorem lookup_url_inject_witness: "lookup_url ex_http 5 \<noteq> lookup_url ex_http 7"
proof -
  have "PathTemplate (hs_mapping ex_http) = ''/'' @ ''{serial}'' @ []" by (simp add: ex_http_def)
  then have "\<exists>pre post. PathTemplate (hs_mapping ex_http) = pre @ ''{serial}'' @ post" by blast
  with lookup_url_inject [of ex_http 5 7] show ?thesis by simp
qed

end
