(* ===== verification/Metrics.thy ===== *)
theory Metrics
  imports Handler FileSource HTTPSource
begin

text \<open>
  \<open>internal/server/metrics.go\<close>: the collectors of the service and the methods that feed them.  The
  Prometheus client is a parameter: whether a vector hands out a child for given label values
  (\<open>WithLabelValues\<close> panics when it does not) and what registering collectors does (\<open>MustRegister\<close>
  panics on a clash).  A method of \<open>Metrics\<close> returns the operations it performs on collectors, or
  \<open>None\<close> when the call panics.  Help texts and bucket bounds are left out.
\<close>

section \<open>Collectors\<close>

datatype collector_kind = CounterKind | HistogramKind | GaugeKind

record collector =
  co_kind :: collector_kind
  co_name :: string
  co_labels :: "string list"

record Metrics =
  m_RequestsTotal :: collector
  m_RequestDuration :: collector
  m_CacheEntries :: collector
  m_CacheHits :: collector
  m_CacheMisses :: collector
  m_SignerDaysLeft :: collector
  m_SourceRequests :: collector
  m_SourceLatency :: collector
  m_SourceRetries :: collector
  m_SourceErrors :: collector

datatype prom_op =
    Inc collector "string list"
  | Observe collector "string list" Duration
  | SetGauge collector int

record 'r prom_lib =
  pl_child :: "collector \<Rightarrow> string list \<Rightarrow> bool"
  pl_empty :: 'r
  pl_register :: "'r \<Rightarrow> collector list \<Rightarrow> 'r option"
  pl_GoCollector :: collector
  pl_ProcessCollector :: collector

section \<open>The recording methods\<close>

definition WithLabelValues :: "'r prom_lib \<Rightarrow> collector \<Rightarrow> string list \<Rightarrow> (collector \<times> string list) option" where
  "WithLabelValues p c vs = (if pl_child p c vs then Some (c, vs) else None)"

definition Metrics_RecordRequest :: "'r prom_lib \<Rightarrow> Metrics \<Rightarrow> string \<Rightarrow> string \<Rightarrow> Duration \<Rightarrow> prom_op list option" where
  "Metrics_RecordRequest p m meth status duration =
     (case WithLabelValues p (m_RequestsTotal m) [meth, status] of
        None \<Rightarrow> None
      | Some (c, vs) \<Rightarrow>
          (case WithLabelValues p (m_RequestDuration m) [meth] of
             None \<Rightarrow> None
           | Some (h, hs) \<Rightarrow> Some [Inc c vs, Observe h hs duration]))"

definition Metrics_RecordSourceRequest :: "'r prom_lib \<Rightarrow> Metrics \<Rightarrow> string \<Rightarrow> string \<Rightarrow> prom_op list option" where
  "Metrics_RecordSourceRequest p m sourceName result =
     map_option (\<lambda>(c, vs). [Inc c vs]) (WithLabelValues p (m_SourceRequests m) [sourceName, result])"

definition Metrics_RecordSourceLatency :: "'r prom_lib \<Rightarrow> Metrics \<Rightarrow> string \<Rightarrow> Duration \<Rightarrow> prom_op list option" where
  "Metrics_RecordSourceLatency p m sourceName duration =
     map_option (\<lambda>(c, vs). [Observe c vs duration]) (WithLabelValues p (m_SourceLatency m) [sourceName])"

definition Metrics_RecordSourceRetry :: "'r prom_lib \<Rightarrow> Metrics \<Rightarrow> string \<Rightarrow> prom_op list option" where
  "Metrics_RecordSourceRetry p m sourceName =
     map_option (\<lambda>(c, vs). [Inc c vs]) (WithLabelValues p (m_SourceRetries m) [sourceName])"

definition Metrics_RecordSourceError :: "'r prom_lib \<Rightarrow> Metrics \<Rightarrow> string \<Rightarrow> string \<Rightarrow> prom_op list option" where
  "Metrics_RecordSourceError p m sourceName cls =
     map_option (\<lambda>(c, vs). [Inc c vs]) (WithLabelValues p (m_SourceErrors m) [sourceName, cls])"

definition Metrics_RecordCacheHit :: "Metrics \<Rightarrow> prom_op list" where
  "Metrics_RecordCacheHit m = [Inc (m_CacheHits m) []]"

definition Metrics_RecordCacheMiss :: "Metrics \<Rightarrow> prom_op list" where
  "Metrics_RecordCacheMiss m = [Inc (m_CacheMisses m) []]"

text \<open>
  A telemetry call of the responder or of a source, carried out by a \<open>Metrics\<close> value; the cache gauge
  handed to \<open>NewResponder\<close> is the one of the same value.
\<close>

fun perform :: "'r prom_lib \<Rightarrow> Metrics \<Rightarrow> metric_call \<Rightarrow> prom_op list option" where
  "perform p m (RecordRequest meth status d) = Metrics_RecordRequest p m meth status d"
| "perform p m (RecordSourceRequest name result) = Metrics_RecordSourceRequest p m name result"
| "perform p m (RecordSourceLatency name d) = Metrics_RecordSourceLatency p m name d"
| "perform p m (RecordSourceRetry name) = Metrics_RecordSourceRetry p m name"
| "perform p m (RecordSourceError name cls) = Metrics_RecordSourceError p m name cls"
| "perform p m RecordCacheHit = Some (Metrics_RecordCacheHit m)"
| "perform p m RecordCacheMiss = Some (Metrics_RecordCacheMiss m)"
| "perform p m (CacheEntriesSet n) = Some [SetGauge (m_CacheEntries m) (int n)]"

fun perform_all :: "'r prom_lib \<Rightarrow> Metrics \<Rightarrow> metric_call list \<Rightarrow> prom_op list option" where
  "perform_all p m [] = Some []"
| "perform_all p m (c # cs) =
     (case perform p m c of
        None \<Rightarrow> None
      | Some os \<Rightarrow> map_option (\<lambda>os'. os @ os') (perform_all p m cs))"

section \<open>Construction\<close>

definition the_metrics :: Metrics where
  "the_metrics =
     \<lparr>m_RequestsTotal = \<lparr>co_kind = CounterKind, co_name = ''ocsp_requests_total'', co_labels = [''method'', ''status'']\<rparr>,
      m_RequestDuration = \<lparr>co_kind = HistogramKind, co_name = ''ocsp_request_duration_seconds'', co_labels = [''method'']\<rparr>,
      m_CacheEntries = \<lparr>co_kind = GaugeKind, co_name = ''ocsp_cache_entries'', co_labels = []\<rparr>,
      m_CacheHits = \<lparr>co_kind = CounterKind, co_name = ''ocsp_cache_hits_total'', co_labels = []\<rparr>,
      m_CacheMisses = \<lparr>co_kind = CounterKind, co_name = ''ocsp_cache_misses_total'', co_labels = []\<rparr>,
      m_SignerDaysLeft = \<lparr>co_kind = GaugeKind, co_name = ''ocsp_signer_days_until_expiry'', co_labels = []\<rparr>,
      m_SourceRequests = \<lparr>co_kind = CounterKind, co_name = ''ocsp_source_requests_total'', co_labels = [''source'', ''result'']\<rparr>,
      m_SourceLatency = \<lparr>co_kind = HistogramKind, co_name = ''ocsp_source_request_duration_seconds'', co_labels = [''source'']\<rparr>,
      m_SourceRetries = \<lparr>co_kind = CounterKind, co_name = ''ocsp_source_retries_total'', co_labels = [''source'']\<rparr>,
      m_SourceErrors = \<lparr>co_kind = CounterKind, co_name = ''ocsp_source_errors_total'', co_labels = [''source'', ''class'']\<rparr>\<rparr>"

definition service_collectors :: "Metrics \<Rightarrow> collector list" where
  "service_collectors m =
     [m_RequestsTotal m, m_RequestDuration m, m_CacheEntries m, m_CacheHits m, m_CacheMisses m,
      m_SignerDaysLeft m, m_SourceRequests m, m_SourceLatency m, m_SourceRetries m, m_SourceErrors m]"

definition NewMetrics :: "'r prom_lib \<Rightarrow> (Metrics \<times> 'r) option" where
  "NewMetrics p =
     (let m = the_metrics in
      case pl_register p (pl_empty p) [pl_GoCollector p, pl_ProcessCollector p] of
        None \<Rightarrow> None
      | Some reg \<Rightarrow>
          map_option (\<lambda>reg'. (m, reg')) (pl_register p reg (service_collectors m)))"

section \<open>What the client library promises\<close>

text \<open>
  When the client accepts the descriptor of a collector: a metric name and label names of letters, digits
  and underscores that do not start with a digit, no label name twice, none that starts with two
  underscores, and not the bucket label on a histogram.
\<close>

definition plain_char :: "char \<Rightarrow> bool" where
  "plain_char c \<longleftrightarrow> (let n = of_char c :: nat in 48 \<le> n \<and> n \<le> 57 \<or> 65 \<le> n \<and> n \<le> 90 \<or> n = 95 \<or> 97 \<le> n \<and> n \<le> 122)"

definition plain_name :: "string \<Rightarrow> bool" where
  "plain_name s \<longleftrightarrow> list_all plain_char s \<and> (case s of [] \<Rightarrow> False | c # _ \<Rightarrow> (of_char c :: nat) > 57)"

definition valid_descriptor :: "collector \<Rightarrow> bool" where
  "valid_descriptor c \<longleftrightarrow>
     plain_name (co_name c) \<and> list_all (\<lambda>l. plain_name l \<and> \<not> HasPrefix l ''__'') (co_labels c) \<and> distinct (co_labels c) \<and>
     (co_kind c = HistogramKind \<longrightarrow> ''le'' \<notin> set (co_labels c))"

text \<open>
  The documented behaviour of the Prometheus client that the program relies on.  \<open>names\<close> are the metric
  names a registry holds, \<open>descs\<close> those of a collector: its own name for the ones built here, names
  with the prefix of their kind for the two runtime collectors of the client itself.  A vector with a
  valid descriptor hands out a child for as many (valid) label values as it has labels; registering
  collectors succeeds when their descriptors are valid and their names new and different.
\<close>

definition prom_documented :: "'r prom_lib \<Rightarrow> ('r \<Rightarrow> string set) \<Rightarrow> (collector \<Rightarrow> string set) \<Rightarrow> bool" where
  "prom_documented p names descs \<longleftrightarrow>
     (\<forall>c vs. valid_descriptor c \<and> length vs = length (co_labels c) \<and> list_all ascii vs \<longrightarrow> pl_child p c vs) \<and>
     names (pl_empty p) = {} \<and>
     (\<forall>reg cs. (\<forall>c \<in> set cs. valid_descriptor c \<or> c = pl_GoCollector p \<or> c = pl_ProcessCollector p) \<and>
        (\<forall>c \<in> set cs. descs c \<inter> names reg = {}) \<and> sorted_wrt (\<lambda>c c'. descs c \<inter> descs c' = {}) cs \<longrightarrow>
        (\<exists>reg'. pl_register p reg cs = Some reg' \<and> names reg' = names reg \<union> (\<Union>c \<in> set cs. descs c))) \<and>
     (\<forall>c. HasPrefix (co_name c) ''ocsp_'' \<longrightarrow> descs c = {co_name c}) \<and>
     (\<forall>s \<in> descs (pl_GoCollector p). HasPrefix s ''go_'') \<and>
     (\<forall>s \<in> descs (pl_ProcessCollector p). HasPrefix s ''process_'')"

lemma prom_child: "prom_documented p names descs \<Longrightarrow> valid_descriptor c \<Longrightarrow> length vs = length (co_labels c) \<Longrightarrow>
    list_all ascii vs \<Longrightarrow> WithLabelValues p c vs = Some (c, vs)"
  by (simp add: prom_documented_def WithLabelValues_def)

lemma service_descriptors: "list_all valid_descriptor (service_collectors the_metrics)"
  by code_simp

lemma the_labels:
  "co_labels (m_RequestsTotal the_metrics) = [''method'', ''status'']" "co_labels (m_RequestDuration the_metrics) = [''method'']"
  "co_labels (m_SourceRequests the_metrics) = [''source'', ''result'']" "co_labels (m_SourceLatency the_metrics) = [''source'']"
  "co_labels (m_SourceRetries the_metrics) = [''source'']" "co_labels (m_SourceErrors the_metrics) = [''source'', ''class'']"
  by (simp_all add: the_metrics_def)

lemma the_metrics_differ:
  "m_RequestsTotal the_metrics \<noteq> m_CacheHits the_metrics" "m_RequestsTotal the_metrics \<noteq> m_CacheMisses the_metrics"
  "m_RequestsTotal the_metrics \<noteq> m_SourceRequests the_metrics" "m_SourceRequests the_metrics \<noteq> m_CacheHits the_metrics"
  "m_SourceRequests the_metrics \<noteq> m_CacheMisses the_metrics" "m_SourceRequests the_metrics \<noteq> m_RequestsTotal the_metrics"
  "m_CacheHits the_metrics \<noteq> m_CacheMisses the_metrics" "m_CacheHits the_metrics \<noteq> m_SourceRequests the_metrics"
  "m_CacheHits the_metrics \<noteq> m_RequestsTotal the_metrics" "m_CacheMisses the_metrics \<noteq> m_CacheHits the_metrics"
  "m_CacheMisses the_metrics \<noteq> m_SourceRequests the_metrics" "m_CacheMisses the_metrics \<noteq> m_RequestsTotal the_metrics"
  "m_SourceRetries the_metrics \<noteq> m_CacheHits the_metrics" "m_SourceRetries the_metrics \<noteq> m_CacheMisses the_metrics"
  "m_SourceRetries the_metrics \<noteq> m_SourceRequests the_metrics" "m_SourceRetries the_metrics \<noteq> m_RequestsTotal the_metrics"
  "m_SourceErrors the_metrics \<noteq> m_CacheHits the_metrics" "m_SourceErrors the_metrics \<noteq> m_CacheMisses the_metrics"
  "m_SourceErrors the_metrics \<noteq> m_SourceRequests the_metrics" "m_SourceErrors the_metrics \<noteq> m_RequestsTotal the_metrics"
  by (simp_all add: the_metrics_def)

lemma collector_valid:
  "valid_descriptor (m_RequestsTotal the_metrics)" "valid_descriptor (m_RequestDuration the_metrics)"
  "valid_descriptor (m_SourceRequests the_metrics)" "valid_descriptor (m_SourceLatency the_metrics)"
  "valid_descriptor (m_SourceRetries the_metrics)" "valid_descriptor (m_SourceErrors the_metrics)"
  using service_descriptors by (simp_all add: service_collectors_def)

section \<open>Counting\<close>

fun incs :: "collector \<Rightarrow> prom_op list \<Rightarrow> nat" where
  "incs c [] = 0"
| "incs c (Inc c' vs # os) = (if c' = c then Suc (incs c os) else incs c os)"
| "incs c (_ # os) = incs c os"

lemma incs_append [simp]: "incs c (xs @ ys) = incs c xs + incs c ys"
  by (induction c xs rule: incs.induct) simp_all

fun is_request :: "metric_call \<Rightarrow> bool" where
  "is_request (RecordRequest meth status d) = True"
| "is_request _ = False"

fun is_source_request :: "metric_call \<Rightarrow> bool" where
  "is_source_request (RecordSourceRequest name result) = True"
| "is_source_request _ = False"

definition requests :: "metric_call list \<Rightarrow> nat" where
  "requests ms = length (filter is_request ms)"

definition source_requests :: "metric_call list \<Rightarrow> nat" where
  "source_requests ms = length (filter is_source_request ms)"

lemma requests_simps [simp]:
  "requests [] = 0" "requests (c # ms) = (if is_request c then Suc (requests ms) else requests ms)"
  "requests (ms @ ms') = requests ms + requests ms'"
  by (simp_all add: requests_def)

lemma source_requests_simps [simp]:
  "source_requests [] = 0"
  "source_requests (c # ms) = (if is_source_request c then Suc (source_requests ms) else source_requests ms)"
  "source_requests (ms @ ms') = source_requests ms + source_requests ms'"
  by (simp_all add: source_requests_def)

abbreviation hits :: "metric_call list \<Rightarrow> nat" where
  "hits ms \<equiv> count_list ms RecordCacheHit"

abbreviation misses :: "metric_call list \<Rightarrow> nat" where
  "misses ms \<equiv> count_list ms RecordCacheMiss"

text \<open>
  With correctly labelled calls nothing panics, and the counters are incremented once per call.
\<close>

lemma perform_counts:
  assumes "prom_documented p names descs" and "list_all ascii (call_labels c)"
  shows "\<exists>os. perform p the_metrics c = Some os \<and>
    incs (m_CacheHits the_metrics) os = hits [c] \<and> incs (m_CacheMisses the_metrics) os = misses [c] \<and>
    incs (m_SourceRequests the_metrics) os = source_requests [c] \<and>
    incs (m_RequestsTotal the_metrics) os = requests [c]"
  using assms(2)
  by (cases c)
    (simp_all add: Metrics_RecordRequest_def Metrics_RecordSourceRequest_def Metrics_RecordSourceLatency_def
      Metrics_RecordSourceRetry_def Metrics_RecordSourceError_def Metrics_RecordCacheHit_def Metrics_RecordCacheMiss_def
      prom_child [OF assms(1)] collector_valid the_labels the_metrics_differ)

lemma perform_all_counts:
  assumes "prom_documented p names descs" and "list_all (\<lambda>c. list_all ascii (call_labels c)) ms"
  shows "\<exists>os. perform_all p the_metrics ms = Some os \<and>
    incs (m_CacheHits the_metrics) os = hits ms \<and> incs (m_CacheMisses the_metrics) os = misses ms \<and>
    incs (m_SourceRequests the_metrics) os = source_requests ms \<and>
    incs (m_RequestsTotal the_metrics) os = requests ms"
  using assms(2)
proof (induction ms)
  case (Cons c ms)
  then obtain os where os: "perform_all p the_metrics ms = Some os" "incs (m_CacheHits the_metrics) os = hits ms"
    "incs (m_CacheMisses the_metrics) os = misses ms" "incs (m_SourceRequests the_metrics) os = source_requests ms"
    "incs (m_RequestsTotal the_metrics) os = requests ms" by auto
  from Cons.prems perform_counts [OF assms(1), of c] obtain oc where oc: "perform p the_metrics c = Some oc"
    "incs (m_CacheHits the_metrics) oc = hits [c]" "incs (m_CacheMisses the_metrics) oc = misses [c]"
    "incs (m_SourceRequests the_metrics) oc = source_requests [c]" "incs (m_RequestsTotal the_metrics) oc = requests [c]"
    by auto
  show ?case using os oc by simp
qed simp

section \<open>What a request records\<close>

lemma getAt_calls: "getAt c k now = (hit, c', ms) \<Longrightarrow> list_all (\<lambda>m. \<exists>n. m = CacheEntriesSet n) ms"
  by (auto simp: getAt_def getAt_upgrade_def gauge_update_def Let_def
      split: read_result.splits option.splits if_splits)

lemma setAt_calls: "setAt pick c k d now nu = (c', ms) \<Longrightarrow> list_all (\<lambda>m. \<exists>n. m = CacheEntriesSet n) ms"
  by (auto simp: setAt_def gauge_update_def Let_def split: if_splits)

lemma gauge_calls_count:
  assumes "list_all (\<lambda>m. \<exists>n. m = CacheEntriesSet n) ms"
  shows "hits ms = 0 \<and> misses ms = 0 \<and> source_requests ms = 0 \<and> requests ms = 0 \<and>
    list_all (\<lambda>c. list_all ascii (call_labels c)) ms"
  using assms by (induction ms) auto

lemma source_calls_count:
  assumes "list_all source_call ms"
  shows "hits ms = 0 \<and> misses ms = 0 \<and> source_requests ms = 0 \<and> requests ms = 0 \<and>
    list_all (\<lambda>c. list_all ascii (call_labels c)) ms"
  using assms
proof (induction ms)
  case (Cons c ms)
  then show ?case by (cases c) (simp_all add: source_call_def)
qed simp

lemma ascii_words: "ascii ''ok''" "ascii ''error''" "ascii ''good''" "ascii ''revoked''" "ascii ''unknown''"
    "ascii ''get''" "ascii ''post''"
  by (simp_all add: ascii_def)

context telemetry_source
begin

text \<open>
  A request that reaches the cache is counted as a hit or as a miss, a miss as one request to the
  source; a request that does not is not counted.
\<close>

lemma Handle_counts:
  assumes "r_src_ops r = ops" and "r_metrics r" and eq: "Handle x he der r = (res, r', ms, ls)"
  shows "list_all (\<lambda>c. list_all ascii (call_labels c)) ms \<and> requests ms = 0 \<and> source_requests ms = misses ms \<and>
    hits ms + misses ms = (if \<exists>req. admitted x he der r req then 1 else 0)"
proof (cases "\<exists>req. admitted x he der r req")
  case False
  with Handle_refused(3) [OF _ eq] show ?thesis by simp
next
  case True
  then obtain req where a: "admitted x he der r req" by blast
  obtain hit c' mg where g: "getAt (r_cache r) (big_String (SerialNumber req)) (he_get_now he) = (hit, c', mg)"
    by (metis prod_cases3)
  note gc = gauge_calls_count [OF getAt_calls [OF g]]
  show ?thesis
  proof (cases hit)
    case (Some d)
    with eq gc assms(2) True show ?thesis by (auto simp: Handle_admitted [OF a g])
  next
    case None
    obtain res2 r2 ms2 ls2 where m: "handle_miss he (SerialNumber req) (r\<lparr>r_cache := c'\<rparr>) = (res2, r2, ms2, ls2)"
      by (metis prod_cases4)
    obtain lres src' m_src where l: "GetStatus ops (he_src he) (SerialNumber req)
        (IssuerCert (r_sgn_ops r) (r_signer r)) (r_source r) = (lres, src', m_src)" by (metis prod_cases3)
    define result where "result = (case lres of Inl _ \<Rightarrow> ''error'' | Inr _ \<Rightarrow> ''ok'')"
    have result: "ascii result" by (simp add: result_def ascii_words split: sum.splits)
    obtain m_set where ms2: "ms2 = RecordCacheMiss # m_src @ RecordSourceRequest (Name ops src') result # m_set"
      and set: "list_all (\<lambda>m. \<exists>n. m = CacheEntriesSet n) m_set"
      using m l assms(1,2)
      by (auto simp: handle_miss_def Let_def result_def split: prod.splits sum.splits dest: setAt_calls)
    from eq None m have ms: "ms = mg @ ms2" by (simp add: Handle_admitted [OF a g])
    show ?thesis
      using gc source_calls_count [OF source_calls [OF l]] gauge_calls_count [OF set] result name_ascii True
      by (simp add: ms ms2)
  qed
qed

lemma ServeOCSP_counts:
  assumes "r_src_ops r = ops" and "r_metrics r"
    and eq: "ServeOCSP x parseResp ttl True he start fin req r = (resp, r', ms, ls, hl)"
  shows "list_all (\<lambda>c. list_all ascii (call_labels c)) ms \<and> source_requests ms = misses ms \<and>
    requests ms = (case read_request ttl req of Inl _ \<Rightarrow> 0 | Inr _ \<Rightarrow> 1) \<and>
    hits ms + misses ms = (case read_request ttl req of
        Inl _ \<Rightarrow> 0 | Inr (der, _) \<Rightarrow> if \<exists>rq. admitted x he der r rq then 1 else 0)"
proof (cases "read_request ttl req")
  case (Inl a)
  with eq show ?thesis by (simp add: ServeOCSP_def split: prod.splits)
next
  case (Inr a)
  obtain der headers where a: "a = (der, headers)" by (cases a)
  obtain res r2 ms2 ls2 where h: "Handle x he der r = (res, r2, ms2, ls2)" by (metis prod_cases4)
  have meth: "ascii (ToLower (q_Method req))"
    using Inr by (auto simp: read_request_def ToLower_def lower_char_def ascii_def split: if_splits)
  have status: "ascii (parseOCSPStatus parseResp d)" for d
    by (simp add: parseOCSPStatus_def ascii_words split: option.splits)
  obtain status' where ms: "ms = ms2 @ [RecordRequest (ToLower (q_Method req)) status' (Time_Sub fin start)]"
    and "ascii status'"
    using eq Inr a h status by (auto simp: ServeOCSP_def Let_def ascii_words split: sum.splits)
  with meth Handle_counts [OF assms(1,2) h] Inr a show ?thesis by simp
qed

end

lemma NewMetrics_the: "NewMetrics p = Some (m, reg) \<Longrightarrow> m = the_metrics"
  by (auto simp: NewMetrics_def Let_def split: option.splits)

section \<open>Property\<close>

definition metric_names :: "string list" where
  "metric_names = [''ocsp_requests_total'', ''ocsp_request_duration_seconds'', ''ocsp_cache_entries'',
     ''ocsp_cache_hits_total'', ''ocsp_cache_misses_total'', ''ocsp_signer_days_until_expiry'',
     ''ocsp_source_requests_total'', ''ocsp_source_request_duration_seconds'', ''ocsp_source_retries_total'',
     ''ocsp_source_errors_total'']"

lemma service_names: "map co_name (service_collectors the_metrics) = metric_names"
  by (simp add: service_collectors_def the_metrics_def metric_names_def)

lemma distinct_metric_names: "distinct metric_names"
  by (simp add: metric_names_def)

lemma metric_names_prefix: "list_all (\<lambda>s. HasPrefix s ''ocsp_'') metric_names"
  by (simp add: metric_names_def)

lemma HasPrefix_hd: "HasPrefix s (a # p) \<Longrightarrow> HasPrefix s (b # q) \<Longrightarrow> a = b"
  by (cases s) (auto split: if_splits)

lemma prefixes_differ:
  "HasPrefix s ''go_'' \<Longrightarrow> \<not> HasPrefix s ''process_''" "HasPrefix s ''go_'' \<Longrightarrow> \<not> HasPrefix s ''ocsp_''"
  "HasPrefix s ''process_'' \<Longrightarrow> \<not> HasPrefix s ''ocsp_''"
  using HasPrefix_hd [of s "CHR ''g''" "''o_''" "CHR ''p''" "''rocess_''"]
    HasPrefix_hd [of s "CHR ''g''" "''o_''" "CHR ''o''" "''csp_''"]
    HasPrefix_hd [of s "CHR ''p''" "''rocess_''" "CHR ''o''" "''csp_''"] by auto

lemma distinct_map_sorted_wrt: "distinct (map f xs) \<longleftrightarrow> sorted_wrt (\<lambda>x y. f y \<noteq> f x) xs"
  by (induction xs) (auto simp: image_iff eq_commute)

lemma prom_register:
  assumes "prom_documented p names descs"
    and "\<forall>c \<in> set cs. valid_descriptor c \<or> c = pl_GoCollector p \<or> c = pl_ProcessCollector p"
    and "\<forall>c \<in> set cs. descs c \<inter> names reg = {}"
    and "sorted_wrt (\<lambda>c c'. descs c \<inter> descs c' = {}) cs"
  obtains reg' where "pl_register p reg cs = Some reg'" and "names reg' = names reg \<union> (\<Union>c \<in> set cs. descs c)"
proof -
  have "\<exists>reg'. pl_register p reg cs = Some reg' \<and> names reg' = names reg \<union> (\<Union>c \<in> set cs. descs c)"
    using assms by (simp add: prom_documented_def)
  then show ?thesis using that by blast
qed

lemma NewMetrics_ok:
  assumes "prom_documented p names descs"
  shows "\<exists>reg. NewMetrics p = Some (the_metrics, reg) \<and>
    names reg = descs (pl_GoCollector p) \<union> descs (pl_ProcessCollector p) \<union> set metric_names"
proof -
  define cs where "cs = service_collectors the_metrics"
  have e: "names (pl_empty p) = {}" and own: "\<And>c. HasPrefix (co_name c) ''ocsp_'' \<Longrightarrow> descs c = {co_name c}"
    and go: "\<And>s. s \<in> descs (pl_GoCollector p) \<Longrightarrow> HasPrefix s ''go_''"
    and pr: "\<And>s. s \<in> descs (pl_ProcessCollector p) \<Longrightarrow> HasPrefix s ''process_''"
    using assms by (simp_all add: prom_documented_def)
  have "descs (pl_GoCollector p) \<inter> descs (pl_ProcessCollector p) = {}"
    using prefixes_differ(1) go pr by blast
  then obtain reg1 where r1: "pl_register p (pl_empty p) [pl_GoCollector p, pl_ProcessCollector p] = Some reg1"
    and n1: "names reg1 = descs (pl_GoCollector p) \<union> descs (pl_ProcessCollector p)"
    using prom_register [OF assms, of "[pl_GoCollector p, pl_ProcessCollector p]" "pl_empty p"] e by auto
  have map: "map co_name cs = metric_names" by (simp add: cs_def service_names)
  have pre: "HasPrefix (co_name c) ''ocsp_''" if "c \<in> set cs" for c
    using metric_names_prefix that unfolding map [symmetric] by (simp add: list_all_iff)
  have "sorted_wrt (\<lambda>c c'. co_name c' \<noteq> co_name c) cs"
    using distinct_metric_names unfolding map [symmetric] by (simp add: distinct_map_sorted_wrt)
  then have srt: "sorted_wrt (\<lambda>c c'. descs c \<inter> descs c' = {}) cs"
    by (rule sorted_wrt_mono_rel [rotated]) (simp add: own pre)
  have new: "\<forall>c \<in> set cs. descs c \<inter> names reg1 = {}"
  proof
    fix c
    assume c: "c \<in> set cs"
    have "co_name c \<notin> descs (pl_GoCollector p)" "co_name c \<notin> descs (pl_ProcessCollector p)"
      using go prefixes_differ(2) pr prefixes_differ(3) pre [OF c] by blast+
    then show "descs c \<inter> names reg1 = {}" by (simp add: own [OF pre [OF c]] n1)
  qed
  obtain reg2 where "pl_register p reg1 cs = Some reg2" "names reg2 = names reg1 \<union> (\<Union>c \<in> set cs. descs c)"
    by (rule prom_register [OF assms _ new srt]) (use service_descriptors in \<open>simp add: cs_def list_all_iff\<close>)
  moreover have "(\<Union>c \<in> set cs. descs c) = set metric_names"
    by (auto simp: own pre map [symmetric])
  ultimately show ?thesis using r1 n1 by (simp add: NewMetrics_def Let_def cs_def)
qed

text \<open>
  C39: \<open>NewMetrics\<close> never panics: the ten collectors of the service have valid descriptors, and they and
  the runtime collectors have different names, so that all of them are registered, in a registry of
  their own.
\<close>
theorem NewMetrics_registers:
  assumes "prom_documented p names descs"
  shows "\<exists>reg. NewMetrics p = Some (the_metrics, reg) \<and>
    names reg = descs (pl_GoCollector p) \<union> descs (pl_ProcessCollector p) \<union> set metric_names"
  by (rule NewMetrics_ok [OF assms])

section \<open>Witness\<close>

definition ex_descs :: "collector \<Rightarrow> string set" where
  "ex_descs c = {co_name c}"

definition ex_prom :: "string list prom_lib" where
  "ex_prom = \<lparr>pl_child = (\<lambda>c vs. length vs = length (co_labels c)), pl_empty = [],
     pl_register = (\<lambda>reg cs. if list_all valid_descriptor cs \<and> distinct (map co_name cs) \<and> set (map co_name cs) \<inter> set reg = {} then Some (map co_name cs @ reg) else None),
     pl_GoCollector = \<lparr>co_kind = GaugeKind, co_name = ''go_goroutines'', co_labels = []\<rparr>,
     pl_ProcessCollector = \<lparr>co_kind = GaugeKind, co_name = ''process_open_fds'', co_labels = []\<rparr>\<rparr>"

lemma ex_prom_documented: "prom_documented ex_prom set ex_descs"
proof -
  have "valid_descriptor (pl_GoCollector ex_prom)" "valid_descriptor (pl_ProcessCollector ex_prom)" by code_simp+
  then show ?thesis
    by (auto simp: prom_documented_def ex_prom_def ex_descs_def distinct_map_sorted_wrt list_all_iff)
qed

lemma ex_NewMetrics: "\<exists>reg. NewMetrics ex_prom = Some (the_metrics, reg)"
  using NewMetrics_ok [OF ex_prom_documented] by blast

theorem NewMetrics_registers_witness:
  "\<exists>reg. NewMetrics ex_prom = Some (the_metrics, reg) \<and> ''ocsp_cache_hits_total'' \<in> set reg"
proof -
  have "''ocsp_cache_hits_total'' \<in> set metric_names" by (simp add: metric_names_def)
  with NewMetrics_registers [OF ex_prom_documented] show ?thesis by (metis UnI2)
qed

end
