(* ===== verification/GoDuration.thy ===== *)
theory GoDuration
  imports GoTime
begin

text \<open>
  \<open>time.ParseDuration\<close>, with its overflow checks in \<open>uint64\<close> and its floating-point fractions.
\<close>

section \<open>Digits\<close>

definition is_digit :: "char \<Rightarrow> bool" where
  "is_digit c \<longleftrightarrow> 48 \<le> (of_char c :: nat) \<and> (of_char c :: nat) \<le> 57"

definition digit_value :: "char \<Rightarrow> int" where
  "digit_value c = of_char c - 48"

text \<open>\<open>leadingInt\<close>: \<open>None\<close> on overflow.\<close>

fun leadingInt :: "int \<Rightarrow> string \<Rightarrow> (int \<times> string) option" where
  "leadingInt x [] = Some (x, [])"
| "leadingInt x (c # s) =
     (if \<not> is_digit c then Some (x, c # s)
      else if x > 2 ^ 63 div 10 then None
      else let x' = x * 10 + digit_value c in
           if x' > 2 ^ 63 then None else leadingInt x' s)"

text \<open>\<open>leadingFraction\<close>: digits that no longer fit are skipped.\<close>

fun leadingFraction :: "bool \<Rightarrow> int \<Rightarrow> int \<Rightarrow> string \<Rightarrow> int \<times> int \<times> string" where
  "leadingFraction overflow x scale [] = (x, scale, [])"
| "leadingFraction overflow x scale (c # s) =
     (if \<not> is_digit c then (x, scale, c # s)
      else if overflow then leadingFraction overflow x scale s
      else if x > (2 ^ 63 - 1) div 10 then leadingFraction True x scale s
      else let y = x * 10 + digit_value c in
           if y > 2 ^ 63 then leadingFraction True x scale s
           else leadingFraction False y (scale * 10) s)"

text \<open>The units; the two spellings of the micro sign are their UTF-8 bytes.\<close>

definition unit_of :: "string \<Rightarrow> int option" where
  "unit_of u =
     (if u = ''ns'' then Some 1
      else if u = ''us'' \<or> u = [CHR 0xC2, CHR 0xB5, CHR ''s''] \<or> u = [CHR 0xCE, CHR 0xBC, CHR ''s''] then Some 1000
      else if u = ''ms'' then Some Millisecond
      else if u = ''s'' then Some Second
      else if u = ''m'' then Some Minute
      else if u = ''h'' then Some Hour
      else None)"

definition is_unit_char :: "char \<Rightarrow> bool" where
  "is_unit_char c \<longleftrightarrow> \<not> (c = CHR ''.'' \<or> is_digit c)"

lemma leadingInt_length: "leadingInt x s = Some (v, r) \<Longrightarrow> length r \<le> length s"
  by (induction x s rule: leadingInt.induct) (auto simp: Let_def split: if_splits)

lemma leadingFraction_length: "leadingFraction ov x sc s = (f, sc', r) \<Longrightarrow> length r \<le> length s"
  by (induction ov x sc s rule: leadingFraction.induct) (auto simp: Let_def split: if_splits)

text \<open>The number at the head of the text: its integer part, its fraction and scale, and the rest.\<close>

definition leading_number :: "string \<Rightarrow> (int \<times> int \<times> int \<times> string) option" where
  "leading_number s =
     (case leadingInt 0 s of
        None \<Rightarrow> None
      | Some (v, s1) \<Rightarrow>
          (let pre = (length s1 \<noteq> length s);
               (f, scale, s2) = (if s1 \<noteq> [] \<and> hd s1 = CHR ''.'' then leadingFraction False 0 1 (tl s1) else (0, 1, s1));
               post = (s1 \<noteq> [] \<and> hd s1 = CHR ''.'' \<and> length s2 \<noteq> length (tl s1))
           in if \<not> pre \<and> \<not> post then None else Some (v, f, scale, s2)))"

lemma leading_number_length: "leading_number s = Some (v, f, sc, r) \<Longrightarrow> length r \<le> length s"
  by (auto simp: leading_number_def Let_def dest!: leadingInt_length leadingFraction_length
      split: option.splits if_splits prod.splits)

text \<open>The loop over the terms of a duration, with the nanoseconds summed so far, a \<open>uint64\<close>.\<close>

function parse_terms :: "int \<Rightarrow> string \<Rightarrow> int option" where
  "parse_terms d s =
     (if s = [] then Some d
      else if \<not> (hd s = CHR ''.'' \<or> is_digit (hd s)) then None
      else case leading_number s of
        None \<Rightarrow> None
      | Some (v, f, scale, s2) \<Rightarrow>
          (let u = takeWhile is_unit_char s2; s3 = dropWhile is_unit_char s2 in
           if u = [] then None
           else case unit_of u of
             None \<Rightarrow> None
           | Some un \<Rightarrow>
               if v > 2 ^ 63 div un then None
               else
                 let v1 = v * un;
                     v2 = (if f > 0 then v1 + \<lfloor>f64 (f64 (of_int f) * f64 (of_int un / of_int scale))\<rfloor> else v1)
                 in if f > 0 \<and> v2 > 2 ^ 63 then None
                    else
                      let d' = (d + v2) mod 2 ^ 64 in
                      if d' > 2 ^ 63 then None else parse_terms d' s3))"
  by pat_completeness auto
termination
proof (relation "measure (\<lambda>(d, s). length s)", goal_cases)
  case 1
  show ?case by simp
next
  case (2 d s p v q f q' scale s2 u s3 un v1 v2 d')
  then have "length s2 \<le> length s" "takeWhile is_unit_char s2 \<noteq> []" by (auto dest: leading_number_length)
  moreover have "length s2 = length (takeWhile is_unit_char s2) + length (dropWhile is_unit_char s2)"
    by (metis length_append takeWhile_dropWhile_id)
  ultimately show ?case using 2 by (cases "takeWhile is_unit_char s2") auto
qed

declare parse_terms.simps [simp del]

definition ParseDuration :: "string \<Rightarrow> Duration option" where
  "ParseDuration s =
     (let neg = (s \<noteq> [] \<and> hd s = CHR ''-'');
          s1 = (if s \<noteq> [] \<and> (hd s = CHR ''-'' \<or> hd s = CHR ''+'') then tl s else s)
      in if s1 = ''0'' then Some 0
         else if s1 = '''' then None
         else case parse_terms 0 s1 of
           None \<Rightarrow> None
         | Some d \<Rightarrow>
             if neg then Some (- d) else if d > 2 ^ 63 - 1 then None else Some d)"

section \<open>The result is a Duration\<close>

lemma parse_terms_range: "parse_terms d s = Some r \<Longrightarrow> 0 \<le> d \<Longrightarrow> d \<le> 2 ^ 63 \<Longrightarrow> 0 \<le> r \<and> r \<le> 2 ^ 63"
proof (induction "length s" arbitrary: d s rule: less_induct)
  case less
  show ?case
  proof (cases "s = []")
    case True
    with less.prems show ?thesis by (simp add: parse_terms.simps)
  next
    case False
    with less.prems(1) obtain v f sc s2 where n: "leading_number s = Some (v, f, sc, s2)"
      by (auto simp: parse_terms.simps [of d s] split: if_splits option.splits)
    let ?u = "takeWhile is_unit_char s2" and ?s3 = "dropWhile is_unit_char s2"
    from False less.prems(1) n obtain un where un: "unit_of ?u = Some un" and u: "?u \<noteq> []"
      by (auto simp: parse_terms.simps [of d s] Let_def split: if_splits option.splits)
    let ?v = "if f > 0 then v * un + \<lfloor>f64 (f64 (of_int f) * f64 (of_int un / of_int sc))\<rfloor> else v * un"
    let ?d = "(d + ?v) mod 2 ^ 64"
    from False less.prems(1) n un u have rec: "parse_terms ?d ?s3 = Some r" and le: "?d \<le> 2 ^ 63"
      by (auto simp: parse_terms.simps [of d s] Let_def split: if_splits)
    have "0 \<le> ?d" by simp
    have "length ?u + length ?s3 = length s2" by (metis length_append takeWhile_dropWhile_id)
    with u leading_number_length [OF n] have "length ?s3 < length s" by (cases ?u) auto
    from less.hyps [OF this rec \<open>0 \<le> ?d\<close> le] show ?thesis .
  qed
qed

lemma ParseDuration_int64:
  assumes "ParseDuration s = Some d"
  shows "in_int64 d"
proof -
  let ?s1 = "if s \<noteq> [] \<and> (hd s = CHR ''-'' \<or> hd s = CHR ''+'') then tl s else s"
  show ?thesis
  proof (cases "parse_terms 0 ?s1")
    case None
    with assms show ?thesis by (auto simp: ParseDuration_def Let_def in_int64_def split: if_splits)
  next
    case (Some r)
    from parse_terms_range [OF this] have "0 \<le> r \<and> r \<le> 2 ^ 63" by simp
    with Some assms show ?thesis by (auto simp: ParseDuration_def Let_def in_int64_def split: if_splits)
  qed
qed

end
