(* ===== verification/Config.thy ===== *)
theory Config
  imports GoDuration
begin

text \<open>
  \<open>internal/config/config.go\<close>: the configuration and its validation, which also fills in defaults.  The
  YAML decoder is a parameter of \<open>Load\<close>.
\<close>

section \<open>Data\<close>

record TLSConfig =
  tls_Enabled :: bool
  tls_CertFile :: string
  tls_KeyFile :: string
  tls_MinVersion :: string
  tls_ACMEHost :: string
  tls_ACMECAUrl :: string
  tls_ACMECacheDir :: string

record ServerConfig =
  srv_ListenAddr :: string
  srv_TLS :: TLSConfig

record SignerConfig =
  sgc_CertFile :: string
  sgc_KeyFile :: string
  sgc_IssuerCertFile :: string
  sgc_ResponseValidity :: string

record FileSourceConfig =
  fsc_CRLPath :: string
  fsc_ReloadInterval :: string
  fsc_ExpiryGrace :: string

record MappingConfig =
  map_PathTemplate :: string
  map_StatusField :: string
  map_GoodValues :: "string list"
  map_RevokedValues :: "string list"

record HTTPSourceConfig =
  hsc_BaseURL :: string
  hsc_RootCertFile :: string
  hsc_Timeout :: string
  hsc_RetryMax :: int
  hsc_RetryBackoff :: string
  hsc_CacheTTL :: string
  hsc_Mapping :: MappingConfig

record StaticSourceConfig =
  stc_Status :: string

record SourceConfig =
  src_Type :: string
  src_File :: FileSourceConfig
  src_HTTP :: HTTPSourceConfig
  src_Static :: StaticSourceConfig

record CacheConfig =
  cac_Enabled :: bool
  cac_TTL :: string
  cac_MaxEntries :: int

record LoggingConfig =
  log_Level :: string
  log_Format :: string

record Config =
  cfg_Server :: ServerConfig
  cfg_Signer :: SignerConfig
  cfg_Source :: SourceConfig
  cfg_Cache :: CacheConfig
  cfg_Logging :: LoggingConfig

datatype config_error =
    ConfigUnreadable
  | ConfigUndecodable
  | Missing string
  | InvalidDuration string
  | OutOfRange string
  | InvalidStaticStatusConfig string
  | InvalidSourceType string

section \<open>Validation\<close>

definition DefaultListenAddr :: string where
  "DefaultListenAddr = ''0.0.0.0:8080''"

definition validate_file :: "FileSourceConfig \<Rightarrow> config_error option" where
  "validate_file f =
     (if fsc_CRLPath f = '''' then Some (Missing ''source.file.crl_path'')
      else if fsc_ReloadInterval f = '''' then Some (Missing ''source.file.reload_interval'')
      else case ParseDuration (fsc_ReloadInterval f) of
        None \<Rightarrow> Some (InvalidDuration ''source.file.reload_interval'')
      | Some ivl \<Rightarrow>
          if ivl \<le> 0 then Some (OutOfRange ''source.file.reload_interval'')
          else if fsc_ExpiryGrace f \<noteq> '''' then
            (case ParseDuration (fsc_ExpiryGrace f) of
               None \<Rightarrow> Some (InvalidDuration ''source.file.expiry_grace'')
             | Some grace \<Rightarrow> if grace < 0 then Some (OutOfRange ''source.file.expiry_grace'') else None)
          else None)"

text \<open>The HTTP branch also fills in the defaults of the retry settings.\<close>

definition validate_http :: "HTTPSourceConfig \<Rightarrow> config_error + HTTPSourceConfig" where
  "validate_http h =
     (if hsc_BaseURL h = '''' then Inl (Missing ''source.http.base_url'')
      else if hsc_Timeout h = '''' then Inl (Missing ''source.http.timeout'')
      else if ParseDuration (hsc_Timeout h) = None then Inl (InvalidDuration ''source.http.timeout'')
      else
        case (if hsc_RetryBackoff h \<noteq> '''' then
                (if ParseDuration (hsc_RetryBackoff h) = None then Inl (InvalidDuration ''source.http.retry_backoff'')
                 else Inr h)
              else Inr (h\<lparr>hsc_RetryBackoff := ''500ms''\<rparr>)) of
          Inl err \<Rightarrow> Inl err
        | Inr h1 \<Rightarrow>
            (let h2 = (if hsc_RetryMax h1 = 0 then h1\<lparr>hsc_RetryMax := 3\<rparr> else h1) in
             if hsc_CacheTTL h2 \<noteq> '''' \<and> ParseDuration (hsc_CacheTTL h2) = None
             then Inl (InvalidDuration ''source.http.cache_ttl'')
             else Inr h2))"

definition validate_static :: "StaticSourceConfig \<Rightarrow> config_error option" where
  "validate_static s =
     (if stc_Status s = '''' then Some (Missing ''source.static.status'')
      else if stc_Status s \<noteq> ''good'' \<and> stc_Status s \<noteq> ''revoked'' \<and> stc_Status s \<noteq> ''unknown''
      then Some (InvalidStaticStatusConfig (stc_Status s))
      else None)"

definition validate_source :: "SourceConfig \<Rightarrow> config_error + SourceConfig" where
  "validate_source s =
     (if src_Type s = ''file'' then
        (case validate_file (src_File s) of Some err \<Rightarrow> Inl err | None \<Rightarrow> Inr s)
      else if src_Type s = ''http'' then
        (case validate_http (src_HTTP s) of Inl err \<Rightarrow> Inl err | Inr h \<Rightarrow> Inr (s\<lparr>src_HTTP := h\<rparr>))
      else if src_Type s = ''static'' then
        (case validate_static (src_Static s) of Some err \<Rightarrow> Inl err | None \<Rightarrow> Inr s)
      else Inl (InvalidSourceType (src_Type s)))"

definition validate :: "Config \<Rightarrow> config_error + Config" where
  "validate c0 =
     (let c = (if srv_ListenAddr (cfg_Server c0) = ''''
               then c0\<lparr>cfg_Server := (cfg_Server c0)\<lparr>srv_ListenAddr := DefaultListenAddr\<rparr>\<rparr> else c0) in
      if sgc_CertFile (cfg_Signer c) = '''' then Inl (Missing ''signer.cert_file'')
      else if sgc_KeyFile (cfg_Signer c) = '''' then Inl (Missing ''signer.key_file'')
      else if sgc_IssuerCertFile (cfg_Signer c) = '''' then Inl (Missing ''signer.issuer_cert_file'')
      else case validate_source (cfg_Source c) of
        Inl err \<Rightarrow> Inl err
      | Inr s \<Rightarrow>
          (let c' = c\<lparr>cfg_Source := s\<rparr> in
           case ParseDuration (sgc_ResponseValidity (cfg_Signer c')) of
             None \<Rightarrow> Inl (InvalidDuration ''signer.response_validity'')
           | Some v \<Rightarrow>
               if v \<le> 0 then Inl (OutOfRange ''signer.response_validity'')
               else if ParseDuration (cac_TTL (cfg_Cache c')) = None then Inl (InvalidDuration ''cache.ttl'')
               else Inr c'))"

section \<open>Loading\<close>

text \<open>What the YAML decoder (with known fields only) makes of the bytes; an empty document is the end of input.\<close>

datatype yaml_result = YamlEOF | YamlError | YamlDoc Config

definition empty_Config :: Config where
  "empty_Config =
     \<lparr>cfg_Server = \<lparr>srv_ListenAddr = '''', srv_TLS = \<lparr>tls_Enabled = False, tls_CertFile = '''', tls_KeyFile = '''',
        tls_MinVersion = '''', tls_ACMEHost = '''', tls_ACMECAUrl = '''', tls_ACMECacheDir = ''''\<rparr>\<rparr>,
      cfg_Signer = \<lparr>sgc_CertFile = '''', sgc_KeyFile = '''', sgc_IssuerCertFile = '''', sgc_ResponseValidity = ''''\<rparr>,
      cfg_Source = \<lparr>src_Type = '''', src_File = \<lparr>fsc_CRLPath = '''', fsc_ReloadInterval = '''', fsc_ExpiryGrace = ''''\<rparr>,
        src_HTTP = \<lparr>hsc_BaseURL = '''', hsc_RootCertFile = '''', hsc_Timeout = '''', hsc_RetryMax = 0,
          hsc_RetryBackoff = '''', hsc_CacheTTL = '''',
          hsc_Mapping = \<lparr>map_PathTemplate = '''', map_StatusField = '''', map_GoodValues = [], map_RevokedValues = []\<rparr>\<rparr>,
        src_Static = \<lparr>stc_Status = ''''\<rparr>\<rparr>,
      cfg_Cache = \<lparr>cac_Enabled = False, cac_TTL = '''', cac_MaxEntries = 0\<rparr>,
      cfg_Logging = \<lparr>log_Level = '''', log_Format = ''''\<rparr>\<rparr>"

definition Load :: "(string \<Rightarrow> bytes option) \<Rightarrow> (bytes \<Rightarrow> yaml_result) \<Rightarrow> string \<Rightarrow> config_error + Config" where
  "Load readFile yaml path =
     (case readFile path of
        None \<Rightarrow> Inl ConfigUnreadable
      | Some b \<Rightarrow>
          (case yaml b of
             YamlError \<Rightarrow> Inl ConfigUndecodable
           | YamlEOF \<Rightarrow> validate empty_Config
           | YamlDoc c \<Rightarrow> validate c))"

section \<open>What a valid configuration is\<close>

definition duration_ok :: "string \<Rightarrow> bool" where
  "duration_ok s \<longleftrightarrow> ParseDuration s \<noteq> None"

definition duration_sat :: "(Duration \<Rightarrow> bool) \<Rightarrow> string \<Rightarrow> bool" where
  "duration_sat P s \<longleftrightarrow> (case ParseDuration s of None \<Rightarrow> False | Some d \<Rightarrow> P d)"

definition source_ok :: "SourceConfig \<Rightarrow> bool" where
  "source_ok s \<longleftrightarrow>
     src_Type s = ''file'' \<and> fsc_CRLPath (src_File s) \<noteq> '''' \<and>
       duration_sat (\<lambda>d. 0 < d) (fsc_ReloadInterval (src_File s)) \<and>
       (fsc_ExpiryGrace (src_File s) = '''' \<or> duration_sat (\<lambda>d. 0 \<le> d) (fsc_ExpiryGrace (src_File s))) \<or>
     src_Type s = ''http'' \<and> hsc_BaseURL (src_HTTP s) \<noteq> '''' \<and> duration_ok (hsc_Timeout (src_HTTP s)) \<and>
       duration_ok (hsc_RetryBackoff (src_HTTP s)) \<and> hsc_RetryMax (src_HTTP s) \<noteq> 0 \<and>
       (hsc_CacheTTL (src_HTTP s) = '''' \<or> duration_ok (hsc_CacheTTL (src_HTTP s))) \<or>
     src_Type s = ''static'' \<and> stc_Status (src_Static s) \<in> {''good'', ''revoked'', ''unknown''}"

definition valid_config :: "Config \<Rightarrow> bool" where
  "valid_config c \<longleftrightarrow>
     srv_ListenAddr (cfg_Server c) \<noteq> '''' \<and> sgc_CertFile (cfg_Signer c) \<noteq> '''' \<and>
     sgc_KeyFile (cfg_Signer c) \<noteq> '''' \<and> sgc_IssuerCertFile (cfg_Signer c) \<noteq> '''' \<and>
     source_ok (cfg_Source c) \<and> duration_sat (\<lambda>d. 0 < d) (sgc_ResponseValidity (cfg_Signer c)) \<and>
     duration_ok (cac_TTL (cfg_Cache c))"

text \<open>The defaults.\<close>

definition http_defaults :: "HTTPSourceConfig \<Rightarrow> HTTPSourceConfig" where
  "http_defaults h = h\<lparr>hsc_RetryBackoff := (if hsc_RetryBackoff h = '''' then ''500ms'' else hsc_RetryBackoff h),
                       hsc_RetryMax := (if hsc_RetryMax h = 0 then 3 else hsc_RetryMax h)\<rparr>"

definition with_defaults :: "Config \<Rightarrow> Config" where
  "with_defaults c =
     (let srv = cfg_Server c; s = cfg_Source c in
      c\<lparr>cfg_Server := (if srv_ListenAddr srv = '''' then srv\<lparr>srv_ListenAddr := DefaultListenAddr\<rparr> else srv),
        cfg_Source := (if src_Type s = ''http'' then s\<lparr>src_HTTP := http_defaults (src_HTTP s)\<rparr> else s)\<rparr>)"

lemma ParseDuration_Nil [simp]: "ParseDuration [] = None"
  by (simp add: ParseDuration_def)

lemma ParseDuration_500ms: "ParseDuration ''500ms'' = Some (500 * Millisecond)"
  by code_simp

lemma validate_file_iff:
  "validate_file f = None \<longleftrightarrow>
     fsc_CRLPath f \<noteq> '''' \<and> duration_sat (\<lambda>d. 0 < d) (fsc_ReloadInterval f) \<and>
     (fsc_ExpiryGrace f = '''' \<or> duration_sat (\<lambda>d. 0 \<le> d) (fsc_ExpiryGrace f))"
  by (auto simp: validate_file_def duration_sat_def split: option.splits)

lemma validate_static_iff: "validate_static s = None \<longleftrightarrow> stc_Status s \<in> {''good'', ''revoked'', ''unknown''}"
  by (auto simp: validate_static_def)

lemma validate_http_iff:
  "validate_http h = Inr h' \<longleftrightarrow>
     h' = http_defaults h \<and> hsc_BaseURL h \<noteq> '''' \<and> duration_ok (hsc_Timeout h) \<and>
     duration_ok (hsc_RetryBackoff (http_defaults h)) \<and>
     (hsc_CacheTTL h = '''' \<or> duration_ok (hsc_CacheTTL h))"
proof -
  have "http_defaults h =
      (let h1 = (if hsc_RetryBackoff h \<noteq> '''' then h else h\<lparr>hsc_RetryBackoff := ''500ms''\<rparr>)
       in if hsc_RetryMax h1 = 0 then h1\<lparr>hsc_RetryMax := 3\<rparr> else h1)"
    by (cases h) (simp add: http_defaults_def)
  then show ?thesis
    using ParseDuration_500ms by (auto simp: validate_http_def duration_ok_def Let_def)
qed

lemma validate_source_iff:
  "validate_source s = Inr s' \<longleftrightarrow>
     s' = (if src_Type s = ''http'' then s\<lparr>src_HTTP := http_defaults (src_HTTP s)\<rparr> else s) \<and> source_ok s'"
proof -
  have n: "''file'' \<noteq> ''http''" "''file'' \<noteq> ''static''" "''static'' \<noteq> ''http''" by simp_all
  have keep: "hsc_BaseURL (http_defaults h) = hsc_BaseURL h" "hsc_Timeout (http_defaults h) = hsc_Timeout h"
    "hsc_CacheTTL (http_defaults h) = hsc_CacheTTL h" "hsc_RetryMax (http_defaults h) \<noteq> 0" for h
    by (simp_all add: http_defaults_def)
  consider "src_Type s = ''file''" | "src_Type s = ''http''" | "src_Type s = ''static''"
    | "src_Type s \<notin> {''file'', ''http'', ''static''}" by blast
  then show ?thesis
  proof cases
    case 1
    then have "source_ok s \<longleftrightarrow> validate_file (src_File s) = None" by (simp add: source_ok_def validate_file_iff)
    with 1 show ?thesis by (auto simp: validate_source_def split: option.splits)
  next
    case 2
    then have "source_ok (s\<lparr>src_HTTP := http_defaults (src_HTTP s)\<rparr>) \<longleftrightarrow>
        validate_http (src_HTTP s) = Inr (http_defaults (src_HTTP s))"
      by (auto simp: source_ok_def validate_http_iff keep)
    moreover have "validate_http (src_HTTP s) = Inr h \<Longrightarrow> h = http_defaults (src_HTTP s)" for h
      by (simp add: validate_http_iff)
    ultimately show ?thesis using 2 by (auto simp: validate_source_def split: sum.splits)
  next
    case 3
    then have "source_ok s \<longleftrightarrow> validate_static (src_Static s) = None" by (simp add: source_ok_def validate_static_iff)
    with 3 show ?thesis by (auto simp: validate_source_def split: option.splits)
  next
    case 4
    then show ?thesis by (auto simp: validate_source_def source_ok_def)
  qed
qed

text \<open>\<open>validate\<close> after the default address has been filled in.\<close>

lemma validate_rest:
  assumes "\<And>s. validate_source (cfg_Source c) = Inr s \<Longrightarrow> s = s'"
  shows "(if sgc_CertFile (cfg_Signer c) = '''' then Inl e1
          else if sgc_KeyFile (cfg_Signer c) = '''' then Inl e2
          else if sgc_IssuerCertFile (cfg_Signer c) = '''' then Inl e3
          else case validate_source (cfg_Source c) of
            Inl err \<Rightarrow> Inl err
          | Inr s \<Rightarrow>
              (case ParseDuration (sgc_ResponseValidity (cfg_Signer (c\<lparr>cfg_Source := s\<rparr>))) of
                 None \<Rightarrow> Inl e4
               | Some v \<Rightarrow>
                   if v \<le> 0 then Inl e5
                   else if ParseDuration (cac_TTL (cfg_Cache (c\<lparr>cfg_Source := s\<rparr>))) = None then Inl e6
                   else Inr (c\<lparr>cfg_Source := s\<rparr>))) = Inr c' \<longleftrightarrow>
    c' = c\<lparr>cfg_Source := s'\<rparr> \<and> sgc_CertFile (cfg_Signer c) \<noteq> '''' \<and> sgc_KeyFile (cfg_Signer c) \<noteq> '''' \<and>
    sgc_IssuerCertFile (cfg_Signer c) \<noteq> '''' \<and> validate_source (cfg_Source c) = Inr s' \<and>
    duration_sat (\<lambda>d. 0 < d) (sgc_ResponseValidity (cfg_Signer c)) \<and> duration_ok (cac_TTL (cfg_Cache c))"
  using assms
  by (cases "validate_source (cfg_Source c)"; cases "ParseDuration (sgc_ResponseValidity (cfg_Signer c))")
    (auto simp: duration_sat_def duration_ok_def)

lemma validate_iff: "validate c = Inr c' \<longleftrightarrow> c' = with_defaults c \<and> valid_config c'"
proof -
  define c1 where "c1 = (if srv_ListenAddr (cfg_Server c) = ''''
    then c\<lparr>cfg_Server := (cfg_Server c)\<lparr>srv_ListenAddr := DefaultListenAddr\<rparr>\<rparr> else c)"
  define s1 where "s1 = (if src_Type (cfg_Source c) = ''http''
    then (cfg_Source c)\<lparr>src_HTTP := http_defaults (src_HTTP (cfg_Source c))\<rparr> else cfg_Source c)"
  have d: "with_defaults c = c1\<lparr>cfg_Source := s1\<rparr>"
    by (cases c) (simp add: c1_def s1_def with_defaults_def Let_def)
  have addr: "srv_ListenAddr (cfg_Server c1) \<noteq> ''''" by (simp add: c1_def DefaultListenAddr_def)
  have src: "cfg_Source c1 = cfg_Source c" by (simp add: c1_def)
  have vs: "validate_source (cfg_Source c) = Inr s \<longleftrightarrow> s = s1 \<and> source_ok s1" for s
    by (auto simp: validate_source_iff s1_def)
  have v: "valid_config (c1\<lparr>cfg_Source := s1\<rparr>) \<longleftrightarrow>
      sgc_CertFile (cfg_Signer c1) \<noteq> '''' \<and> sgc_KeyFile (cfg_Signer c1) \<noteq> '''' \<and>
      sgc_IssuerCertFile (cfg_Signer c1) \<noteq> '''' \<and> validate_source (cfg_Source c1) = Inr s1 \<and>
      duration_sat (\<lambda>d. 0 < d) (sgc_ResponseValidity (cfg_Signer c1)) \<and> duration_ok (cac_TTL (cfg_Cache c1))"
    using addr by (auto simp: valid_config_def vs src)
  show ?thesis
    unfolding validate_def Let_def c1_def [symmetric] d using v vs src
    by (subst validate_rest [of c1 s1]) auto
qed

lemma with_defaults_idem: "with_defaults (with_defaults c) = with_defaults c"
  by (cases c) (auto simp: with_defaults_def http_defaults_def Let_def DefaultListenAddr_def)

section \<open>Property\<close>

text \<open>
  C23: \<open>validate\<close> accepts a configuration exactly when, with the documented defaults filled in, every
  required field is set, the source section of the chosen type is complete, every duration in use
  parses, and the reload interval, the grace and the response validity have the required sign; it
  returns the configuration with those defaults, which are filled in once and for all.
\<close>
theorem validate_exact:
  "(validate c = Inr c' \<longleftrightarrow> c' = with_defaults c \<and> valid_config c') \<and>
   with_defaults (with_defaults c) = with_defaults c"
  by (simp add: validate_iff with_defaults_idem)

end
