(* ===== verification/Server.thy ===== *)
theory Server
  imports Metrics Config
begin

text \<open>
  \<open>internal/server/server.go\<close>: the routes, the choice of the listener, the ACME cache directory, start
  and shutdown.  \<open>http.ServeMux\<close> is modelled for the four patterns the server registers; the file
  system, the listener and \<open>http.Server.Shutdown\<close> act through environment records.
\<close>

section \<open>Request routing\<close>

text \<open>
  \<open>path.Clean\<close> on a rooted path, by segments: empty and dot segments go, a double dot takes its
  predecessor with it.  \<open>cleanPath\<close> keeps a trailing slash.
\<close>

fun split_path :: "string \<Rightarrow> string \<Rightarrow> string list" where
  "split_path acc [] = [acc]"
| "split_path acc (c # cs) = (if c = CHR ''/'' then acc # split_path [] cs else split_path (acc @ [c]) cs)"

fun clean_segments :: "string list \<Rightarrow> string list \<Rightarrow> string list" where
  "clean_segments st [] = rev st"
| "clean_segments st (s # ss) =
     (if s = '''' \<or> s = ''.'' then clean_segments st ss
      else if s = ''..'' then clean_segments (tl st) ss
      else clean_segments (s # st) ss)"

definition path_Clean :: "string \<Rightarrow> string" where
  "path_Clean p = (case clean_segments [] (split_path [] p) of
      [] \<Rightarrow> ''/'' | segs \<Rightarrow> concat (map (\<lambda>s. ''/'' @ s) segs))"

definition cleanPath :: "string \<Rightarrow> string" where
  "cleanPath p0 =
     (if p0 = '''' then ''/''
      else
        let p = (if hd p0 \<noteq> CHR ''/'' then ''/'' @ p0 else p0);
            np = path_Clean p
        in if last p = CHR ''/'' \<and> np \<noteq> ''/'' then np @ ''/'' else np)"

text \<open>\<open>url.PathUnescape\<close>; a malformed escape leaves the segment as it is.\<close>

definition hex_value :: "char \<Rightarrow> nat option" where
  "hex_value c =
     (let n = of_char c :: nat in
      if 48 \<le> n \<and> n \<le> 57 then Some (n - 48)
      else if 65 \<le> n \<and> n \<le> 70 then Some (n - 55)
      else if 97 \<le> n \<and> n \<le> 102 then Some (n - 87)
      else None)"

fun unescape :: "string \<Rightarrow> string option" where
  "unescape [] = Some []"
| "unescape (c # cs) =
     (if c = CHR ''%'' then
        (case cs of
           a # b # rest \<Rightarrow>
             (case (hex_value a, hex_value b) of
                (Some m, Some n) \<Rightarrow> map_option ((#) (char_of (16 * m + n))) (unescape rest)
              | _ \<Rightarrow> None)
         | _ \<Rightarrow> None)
      else map_option ((#) c) (unescape cs))"

definition pathUnescape :: "string \<Rightarrow> string" where
  "pathUnescape s = (case unescape s of None \<Rightarrow> s | Some t \<Rightarrow> t)"

definition firstSegment :: "string \<Rightarrow> string \<times> string" where
  "firstSegment path =
     (if path = ''/'' then (''/'', '''')
      else (let p = tl path in
            (pathUnescape (takeWhile (\<lambda>c. c \<noteq> CHR ''/'') p), dropWhile (\<lambda>c. c \<noteq> CHR ''/'') p)))"

datatype route =
    RouteOCSP string
  | RouteHealth
  | RouteMetrics
  | RouteRedirect string
  | RouteMethodNotAllowed string

text \<open>
  The routing tree of the patterns \<open>POST /\<close>, \<open>GET /{request}\<close>, \<open>GET /health\<close> and \<open>GET /metrics\<close>: under
  \<open>GET\<close> (which also serves \<open>HEAD\<close>) a literal segment goes before the wildcard, and the wildcard takes
  exactly one segment; \<open>POST /\<close> takes every path.
\<close>

definition match_GET :: "string \<Rightarrow> route option" where
  "match_GET path =
     (let (seg, rest) = firstSegment path in
      if seg = ''health'' \<and> rest = '''' then Some RouteHealth
      else if seg = ''metrics'' \<and> rest = '''' then Some RouteMetrics
      else if seg \<noteq> ''/'' \<and> rest = '''' then Some (RouteOCSP seg)
      else None)"

definition mux_match :: "string \<Rightarrow> string \<Rightarrow> route option" where
  "mux_match meth path =
     (if meth = ''POST'' then Some (RouteOCSP '''')
      else if meth = ''GET'' \<or> meth = ''HEAD'' then match_GET path
      else None)"

definition allowedMethods :: "string \<Rightarrow> string" where
  "allowedMethods path = (if match_GET path \<noteq> None then ''GET, HEAD, POST'' else ''POST'')"

text \<open>
  \<open>ServeMux.findHandler\<close> on the escaped path: a path that is not clean is redirected, and since
  \<open>POST /\<close> matches every path, what does not match is a wrong method.
\<close>

definition findHandler :: "string \<Rightarrow> string \<Rightarrow> route" where
  "findHandler meth escapedPath =
     (let path = (if meth = ''CONNECT'' then escapedPath else cleanPath escapedPath) in
      if path \<noteq> escapedPath then RouteRedirect path
      else (case mux_match meth path of Some rt \<Rightarrow> rt | None \<Rightarrow> RouteMethodNotAllowed (allowedMethods path)))"

section \<open>The server\<close>

record ('e, 's) Server =
  sv_cfg :: Config
  sv_responder :: "('e, 's, Signer) Responder"
  sv_signer :: Signer
  sv_metrics :: bool

text \<open>
  \<open>New\<close>.  The source the server reports on is the one the responder holds (the program passes the same
  pointer to both); whether there is a metrics value decides what is recorded.
\<close>

definition New :: "Config \<Rightarrow> ('e, 's, Signer) Responder \<Rightarrow> Signer \<Rightarrow> bool \<Rightarrow> ('e, 's) Server" where
  "New cfg r sg metrics = \<lparr>sv_cfg = cfg, sv_responder = r, sv_signer = sg, sv_metrics = metrics\<rparr>"

text \<open>
  A request as it arrives, and what the clocks and the context are while it is served; \<open>se_source2\<close> is the
  source as the second health call finds it.
\<close>

record wire_request =
  wq_Method :: string
  wq_path :: string
  wq_body :: "bytes \<times> bool"

record ('e, 's) serve_env =
  se_handle :: "'e handle_env"
  se_start :: Time
  se_fin :: Time
  se_health :: health_env
  se_source2 :: 's

datatype served =
    Answered http_response
  | MetricsPage
  | Redirected string

definition serve_request ::
  "responder_lib \<Rightarrow> (bytes \<Rightarrow> int option) \<Rightarrow> Duration \<Rightarrow> ('e, 's) serve_env \<Rightarrow> wire_request \<Rightarrow> ('e, 's) Server
     \<Rightarrow> served \<times> ('e, 's) Server \<times> metric_call list" where
  "serve_request x parseResp cacheTTL se wq sv =
     (case findHandler (wq_Method wq) (wq_path wq) of
        RouteOCSP seg \<Rightarrow>
          (let (resp, r', ms, _, _) =
             ServeOCSP x parseResp cacheTTL (sv_metrics sv) (se_handle se) (se_start se) (se_fin se)
               \<lparr>q_Method = wq_Method wq, q_body = wq_body wq, q_request = seg\<rparr> (sv_responder sv)
           in (Answered resp, sv\<lparr>sv_responder := r'\<rparr>, ms))
      | RouteHealth \<Rightarrow>
          (Answered (ServeHealth (se_health se) (sv_signer sv) (r_src_ops (sv_responder sv)) (r_source (sv_responder sv))
             (se_source2 se)),
           sv, [])
      | RouteMetrics \<Rightarrow> (MetricsPage, sv, [])
      | RouteRedirect p \<Rightarrow> (Redirected p, sv, [])
      | RouteMethodNotAllowed allow \<Rightarrow>
          (Answered (http_Error [(''Allow'', allow)] ''Method Not Allowed'' 405), sv, []))"

section \<open>TLS and the ACME cache directory\<close>

definition tls_VersionTLS13 :: nat where
  "tls_VersionTLS13 = 772"

definition tlsMinVersion :: "string \<Rightarrow> nat" where
  "tlsMinVersion v = (if v = ''1.3'' then tls_VersionTLS13 else tls_VersionTLS12)"

definition DefaultACMECacheDir :: string where
  "DefaultACMECacheDir = ''/var/lib/ocsp-responder/acme''"

text \<open>
  What the file system does during the probe: whether the directory can be created, the name
  \<open>os.CreateTemp\<close> picks if it can, whether the file closes, whether another process removed it in the
  meantime, and whether it can be removed.  \<open>files\<close> are the regular files present.
\<close>

record probe_env =
  pe_MkdirAll :: "string \<Rightarrow> bool"
  pe_CreateTemp :: "string \<Rightarrow> string option"
  pe_Close :: bool
  pe_snatched :: bool
  pe_Remove :: bool

datatype remove_result = Removed | NotExist | RemoveFailed

definition os_Remove :: "probe_env \<Rightarrow> string \<Rightarrow> string set \<Rightarrow> remove_result \<times> string set" where
  "os_Remove pe f files =
     (if f \<notin> files then (NotExist, files)
      else if pe_Remove pe then (Removed, files - {f})
      else (RemoveFailed, files))"

datatype server_error =
    InvalidCacheTTL
  | ACMEDirFailed string
  | ACMEDirNotWritable string
  | NoTLSMaterial
  | ServeFailed
  | ShutdownFailed

definition ensureACMECacheDir :: "probe_env \<Rightarrow> string \<Rightarrow> string set \<Rightarrow> server_error option \<times> string set" where
  "ensureACMECacheDir pe dir files =
     (if \<not> pe_MkdirAll pe dir then (Some (ACMEDirFailed dir), files)
      else case pe_CreateTemp pe dir of
        None \<Rightarrow> (Some (ACMEDirNotWritable dir), files)
      | Some probe \<Rightarrow>
          (let files1 = insert probe files in
           if \<not> pe_Close pe then (Some (ACMEDirFailed dir), snd (os_Remove pe probe files1))
           else
             let files2 = (if pe_snatched pe then files1 - {probe} else files1)
             in (case os_Remove pe probe files2 of
                   (RemoveFailed, files3) \<Rightarrow> (Some (ACMEDirFailed dir), files3)
                 | (_, files3) \<Rightarrow> (None, files3))))"

section \<open>Start\<close>

text \<open>
  The fields of \<open>autocert.Manager\<close> and \<open>tls.Config\<close> that the program sets.  What \<open>Manager.TLSConfig\<close>
  returns is a parameter (\<open>ac\<close>), a function of the manager.
\<close>

record acme_manager =
  am_host :: string
  am_cacheDir :: string
  am_directory :: "string option"

record tls_config =
  tc_MinVersion :: nat
  tc_GetCertificate :: "acme_manager option"

datatype listener =
    ListenHTTP string
  | ListenTLS string string string tls_config

datatype server_log =
    LogListeningTLS string
  | LogACMECache string
  | LogListeningACME string string
  | LogListening string
  | LogShutdownSignal

text \<open>
  The goroutine of \<open>Start\<close> up to the call that listens, with the certificate and key files passed to
  \<open>ListenAndServeTLS\<close> and the TLS configuration of the server.  Under ACME the latter is the one of the
  certificate manager: host, cache directory and, if set, the directory URL are all it is given.
\<close>

definition open_listener ::
  "(acme_manager \<Rightarrow> tls_config) \<Rightarrow> probe_env \<Rightarrow> string set \<Rightarrow> ServerConfig \<Rightarrow> (server_error + listener) \<times> server_log list \<times> string set" where
  "open_listener ac pe files sc =
     (let addr = srv_ListenAddr sc; tls = srv_TLS sc in
      if tls_Enabled tls then
        (if tls_CertFile tls \<noteq> '''' \<and> tls_KeyFile tls \<noteq> '''' then
           (Inr (ListenTLS addr (tls_CertFile tls) (tls_KeyFile tls)
                   \<lparr>tc_MinVersion = tlsMinVersion (tls_MinVersion tls), tc_GetCertificate = None\<rparr>),
            [LogListeningTLS addr], files)
         else if tls_ACMEHost tls \<noteq> '''' then
           (let cacheDir = (if tls_ACMECacheDir tls = '''' then DefaultACMECacheDir else tls_ACMECacheDir tls) in
            case ensureACMECacheDir pe cacheDir files of
              (Some err, files') \<Rightarrow> (Inl err, [], files')
            | (None, files') \<Rightarrow>
                (Inr (ListenTLS addr '''' ''''
                        (ac \<lparr>am_host = tls_ACMEHost tls, am_cacheDir = cacheDir,
                             am_directory = (if tls_ACMECAUrl tls \<noteq> '''' then Some (tls_ACMECAUrl tls) else None)\<rparr>)),
                 [LogACMECache cacheDir, LogListeningACME addr (tls_ACMEHost tls)], files'))
         else (Inl NoTLSMaterial, [], files))
      else (Inr (ListenHTTP addr), [LogListening addr], files))"

text \<open>
  How a run of the server goes: which channel the \<open>select\<close> receives from, what a listener that was
  opened returned (\<open>None\<close> for a nil error), and whether the graceful shutdown ended in time.
  The log of \<open>Start\<close> is that of a run whose goroutine got to its listener before the signal came.
\<close>

datatype wake = CtxDone | ErrChannel

datatype listen_result = ErrServerClosed | ListenError

record start_env =
  sx_autocert :: "acme_manager \<Rightarrow> tls_config"
  sx_probe :: probe_env
  sx_files :: "string set"
  sx_wake :: wake
  sx_listen :: "listen_result option"
  sx_shutdown :: bool

datatype channel_error = SetupError server_error | ListenResult "listen_result option"

definition listener_returns :: "start_env \<Rightarrow> server_error + listener \<Rightarrow> channel_error" where
  "listener_returns sx l = (case l of Inl err \<Rightarrow> SetupError err | Inr _ \<Rightarrow> ListenResult (sx_listen sx))"

definition shutdown :: "start_env \<Rightarrow> server_error option" where
  "shutdown sx = (if sx_shutdown sx then None else Some ShutdownFailed)"

definition Start :: "start_env \<Rightarrow> Config \<Rightarrow> server_error option \<times> server_log list" where
  "Start sx cfg =
     (case ParseDuration (cac_TTL (cfg_Cache cfg)) of
        None \<Rightarrow> (Some InvalidCacheTTL, [])
      | Some cacheTTL \<Rightarrow>
          (let (l, logs, files) = open_listener (sx_autocert sx) (sx_probe sx) (sx_files sx) (cfg_Server cfg) in
           case sx_wake sx of
             CtxDone \<Rightarrow> (shutdown sx, logs @ [LogShutdownSignal])
           | ErrChannel \<Rightarrow>
               (case listener_returns sx l of
                  SetupError err \<Rightarrow> (Some err, logs)
                | ListenResult (Some ListenError) \<Rightarrow> (Some ServeFailed, logs)
                | ListenResult _ \<Rightarrow> (shutdown sx, logs))))"

section \<open>Runs of the server\<close>

text \<open>
  A run: requests, and moves of the source on its own.  Requests are served one after the other; what
  goroutines may interleave inside a request is the subject of the theories on the two shared
  structures, the response cache and the CRL generation.
\<close>

datatype ('e, 's) web_event =
    Web "('e, 's) serve_env" wire_request
  | Moves 's

fun web_step ::
  "responder_lib \<Rightarrow> (bytes \<Rightarrow> int option) \<Rightarrow> Duration \<Rightarrow> ('e, 's) web_event \<Rightarrow> ('e, 's) Server
     \<Rightarrow> ('e, 's) Server \<times> metric_call list" where
  "web_step x parseResp ttl (Web se wq) sv = snd (serve_request x parseResp ttl se wq sv)"
| "web_step x parseResp ttl (Moves s) sv = (sv\<lparr>sv_responder := (sv_responder sv)\<lparr>r_source := s\<rparr>\<rparr>, [])"

fun web_run ::
  "responder_lib \<Rightarrow> (bytes \<Rightarrow> int option) \<Rightarrow> Duration \<Rightarrow> ('e, 's) web_event list \<Rightarrow> ('e, 's) Server
     \<Rightarrow> ('e, 's) Server \<times> metric_call list" where
  "web_run x parseResp ttl [] sv = (sv, [])"
| "web_run x parseResp ttl (ev # evs) sv =
     (let (sv1, ms1) = web_step x parseResp ttl ev sv; (sv2, ms2) = web_run x parseResp ttl evs sv1
      in (sv2, ms1 @ ms2))"

text \<open>The DER request that an HTTP request carries to \<open>Handle\<close>, if it gets that far.\<close>

definition carried :: "Duration \<Rightarrow> wire_request \<Rightarrow> bytes option" where
  "carried ttl wq =
     (case findHandler (wq_Method wq) (wq_path wq) of
        RouteOCSP seg \<Rightarrow>
          (case read_request ttl \<lparr>q_Method = wq_Method wq, q_body = wq_body wq, q_request = seg\<rparr> of
             Inr (der, _) \<Rightarrow> Some der
           | Inl _ \<Rightarrow> None)
      | _ \<Rightarrow> None)"

text \<open>How many requests of a run reach \<open>Handle\<close>, and how many of those reach the cache.\<close>

fun reached ::
  "responder_lib \<Rightarrow> (bytes \<Rightarrow> int option) \<Rightarrow> Duration \<Rightarrow> ('e, 's) web_event list \<Rightarrow> ('e, 's) Server \<Rightarrow> nat \<times> nat" where
  "reached x parseResp ttl [] sv = (0, 0)"
| "reached x parseResp ttl (ev # evs) sv =
     (let (a, b) = reached x parseResp ttl evs (fst (web_step x parseResp ttl ev sv)) in
      case ev of
        Moves s \<Rightarrow> (a, b)
      | Web se wq \<Rightarrow>
          (case carried ttl wq of
             None \<Rightarrow> (a, b)
           | Some der \<Rightarrow>
               (Suc a, if \<exists>req. admitted x (se_handle se) der (sv_responder sv) req then Suc b else b)))"

lemma serve_request_frame:
  assumes "serve_request x parseResp ttl se wq sv = (out, sv', ms)"
  shows "r_src_ops (sv_responder sv') = r_src_ops (sv_responder sv) \<and>
    r_metrics (sv_responder sv') = r_metrics (sv_responder sv) \<and> sv_metrics sv' = sv_metrics sv"
  using assms
  by (auto simp: serve_request_def ServeOCSP_def Let_def dest!: Handle_frame split: route.splits prod.splits sum.splits)

context telemetry_source
begin

abbreviation instrumented :: "('e, 's) Server \<Rightarrow> bool" where
  "instrumented sv \<equiv> r_src_ops (sv_responder sv) = ops \<and> r_metrics (sv_responder sv) \<and> sv_metrics sv"

lemma serve_request_counts:
  assumes "instrumented sv" and eq: "serve_request x parseResp ttl se wq sv = (out, sv', ms)"
  shows "instrumented sv' \<and> list_all (\<lambda>c. list_all ascii (call_labels c)) ms \<and> source_requests ms = misses ms \<and>
    requests ms = (if carried ttl wq = None then 0 else 1) \<and>
    hits ms + misses ms = (case carried ttl wq of None \<Rightarrow> 0
      | Some der \<Rightarrow> if \<exists>req. admitted x (se_handle se) der (sv_responder sv) req then 1 else 0)"
proof (cases "findHandler (wq_Method wq) (wq_path wq)")
  case (RouteOCSP seg)
  let ?q = "\<lparr>q_Method = wq_Method wq, q_body = wq_body wq, q_request = seg\<rparr>"
  obtain resp r' ms' ls hl where s: "ServeOCSP x parseResp ttl True (se_handle se) (se_start se) (se_fin se) ?q
      (sv_responder sv) = (resp, r', ms', ls, hl)" by (metis prod_cases5)
  with eq RouteOCSP assms(1) have "ms = ms'" by (simp add: serve_request_def)
  with ServeOCSP_counts [OF _ _ s] assms(1) serve_request_frame [OF eq] RouteOCSP show ?thesis
    by (cases "read_request ttl ?q") (auto simp: carried_def)
qed (use eq assms(1) in \<open>auto simp: serve_request_def carried_def\<close>)

lemma web_run_counts:
  assumes "instrumented sv" and "web_run x parseResp ttl evs sv = (sv', ms)"
  shows "list_all (\<lambda>c. list_all ascii (call_labels c)) ms \<and> source_requests ms = misses ms \<and>
    reached x parseResp ttl evs sv = (requests ms, hits ms + misses ms)"
  using assms
proof (induction evs arbitrary: sv ms)
  case (Cons ev evs)
  obtain sv1 ms1 where s: "web_step x parseResp ttl ev sv = (sv1, ms1)" by (metis prod.exhaust)
  obtain ms2 where r: "web_run x parseResp ttl evs sv1 = (sv', ms2)" and ms: "ms = ms1 @ ms2"
    using Cons.prems(2) s by (auto split: prod.splits)
  show ?case
  proof (cases ev)
    case (Moves s)
    with s Cons.prems(1) have "instrumented sv1" "ms1 = []" by auto
    with Cons.IH [OF _ r] s Moves show ?thesis by (simp add: ms)
  next
    case (Web se wq)
    with s obtain out where "serve_request x parseResp ttl se wq sv = (out, sv1, ms1)" by (cases "serve_request x parseResp ttl se wq sv") auto
    note c = serve_request_counts [OF Cons.prems(1) this]
    with Cons.IH [OF _ r] s Web show ?thesis by (auto simp: ms split: option.splits if_splits)
  qed
qed simp

end

text \<open>
  The responder inside a run of the server is the responder serving the requests that get as far as
  \<open>Handle\<close>.
\<close>

fun as_revents :: "Duration \<Rightarrow> ('e, 's) web_event \<Rightarrow> ('e, 's) revent list" where
  "as_revents ttl (Web se wq) = (case carried ttl wq of None \<Rightarrow> [] | Some der \<Rightarrow> [Req (se_handle se) der])"
| "as_revents ttl (Moves s) = [SourceMoves s]"

lemma serve_append: "serve x (evs @ evs') r = serve x evs' (serve x evs r)"
  by (simp add: serve_def)

lemma serve_one: "serve x [ev] r = revent_step x ev r"
  by (simp add: serve_def)

lemma ServeOCSP_responder:
  assumes "ServeOCSP x parseResp ttl metrics he start fin req r = (resp, r', ms, ls, hl)"
  shows "r' = (case read_request ttl req of Inl _ \<Rightarrow> r | Inr (der, _) \<Rightarrow> fst (snd (Handle x he der r)))"
    and "w_body resp = DERBody d \<Longrightarrow>
      \<exists>der h ms' ls'. read_request ttl req = Inr (der, h) \<and> Handle x he der r = (Inr d, r', ms', ls')"
  using assms
  by (auto simp: ServeOCSP_def Let_def http_Error_def read_request_def split: sum.splits prod.splits if_splits option.splits)

lemma serve_request_responder:
  assumes "serve_request x parseResp ttl se wq sv = (out, sv', ms)"
  shows "sv_responder sv' = serve x (as_revents ttl (Web se wq)) (sv_responder sv)"
    and "out = Answered resp \<Longrightarrow> w_body resp = DERBody d \<Longrightarrow>
      \<exists>der ms' ls'. carried ttl wq = Some der \<and> Handle x (se_handle se) der (sv_responder sv) = (Inr d, sv_responder sv', ms', ls')"
proof -
  have "sv_responder sv' = serve x (as_revents ttl (Web se wq)) (sv_responder sv) \<and>
    (out = Answered resp \<longrightarrow> w_body resp = DERBody d \<longrightarrow>
      (\<exists>der ms' ls'. carried ttl wq = Some der \<and> Handle x (se_handle se) der (sv_responder sv) = (Inr d, sv_responder sv', ms', ls')))"
  proof (cases "findHandler (wq_Method wq) (wq_path wq)")
    case (RouteOCSP seg)
    let ?q = "\<lparr>q_Method = wq_Method wq, q_body = wq_body wq, q_request = seg\<rparr>"
    obtain resp' r' ms' ls hl where s: "ServeOCSP x parseResp ttl (sv_metrics sv) (se_handle se) (se_start se) (se_fin se) ?q
        (sv_responder sv) = (resp', r', ms', ls, hl)" by (metis prod_cases5)
    with assms RouteOCSP have eq: "sv_responder sv' = r'" "out = Answered resp'" by (auto simp: serve_request_def)
    show ?thesis
      using ServeOCSP_responder(1) [OF s] ServeOCSP_responder(2) [OF s, of d] eq RouteOCSP
      by (cases "read_request ttl ?q") (auto simp: carried_def serve_one)
  qed (use assms in \<open>auto simp: serve_request_def carried_def ServeHealth_def http_Error_def Let_def\<close>)
  then show "sv_responder sv' = serve x (as_revents ttl (Web se wq)) (sv_responder sv)"
    and "out = Answered resp \<Longrightarrow> w_body resp = DERBody d \<Longrightarrow>
      \<exists>der ms' ls'. carried ttl wq = Some der \<and> Handle x (se_handle se) der (sv_responder sv) = (Inr d, sv_responder sv', ms', ls')"
    by blast+
qed

lemma web_run_responder:
  "web_run x parseResp ttl evs sv = (sv', ms) \<Longrightarrow>
     sv_responder sv' = serve x (concat (map (as_revents ttl) evs)) (sv_responder sv)"
proof (induction evs arbitrary: sv ms)
  case (Cons ev evs)
  obtain sv1 ms1 where s: "web_step x parseResp ttl ev sv = (sv1, ms1)" by (metis prod.exhaust)
  obtain ms2 where r: "web_run x parseResp ttl evs sv1 = (sv', ms2)"
    using Cons.prems s by (auto split: prod.splits)
  have "sv_responder sv1 = serve x (as_revents ttl ev) (sv_responder sv)"
  proof (cases ev)
    case (Web se wq)
    with s obtain out where "serve_request x parseResp ttl se wq sv = (out, sv1, ms1)"
      by (cases "serve_request x parseResp ttl se wq sv") auto
    with Web show ?thesis by (auto dest: serve_request_responder(1))
  qed (use s in \<open>auto simp: serve_one\<close>)
  with Cons.IH [OF r] show ?case by (simp add: serve_append)
qed simp

section \<open>Facts about routing\<close>

lemma split_path_plain: "CHR ''/'' \<notin> set s \<Longrightarrow> split_path acc s = [acc @ s]"
  by (induction s arbitrary: acc) auto

lemma cleanPath_segment:
  assumes "CHR ''/'' \<notin> set seg" and "seg \<notin> {'''', ''.'', ''..''}"
  shows "cleanPath (''/'' @ seg) = ''/'' @ seg"
proof -
  have "path_Clean (''/'' @ seg) = ''/'' @ seg"
    using assms by (simp add: path_Clean_def split_path_plain)
  moreover have "last (''/'' @ seg) \<noteq> CHR ''/''" using assms by (simp; metis last_in_set)
  ultimately show ?thesis by (simp add: cleanPath_def)
qed

lemma path_Clean_rooted: "\<exists>r. path_Clean p = ''/'' @ r"
  by (simp add: path_Clean_def split: list.splits)

lemma cleanPath_rooted: "\<exists>r. cleanPath p = ''/'' @ r"
proof -
  define q where "q = (if hd p \<noteq> CHR ''/'' then ''/'' @ p else p)"
  have "cleanPath p = (if p = '''' then ''/'' else if last q = CHR ''/'' \<and> path_Clean q \<noteq> ''/'' then path_Clean q @ ''/''
      else path_Clean q)"
    by (simp only: cleanPath_def q_def Let_def)
  moreover obtain r where "path_Clean q = ''/'' @ r" using path_Clean_rooted by blast
  ultimately show ?thesis by simp
qed

lemma cleanPath_dots: "cleanPath ''/.'' = ''/''" "cleanPath ''/..'' = ''/''"
  by (simp_all add: cleanPath_def path_Clean_def)

text \<open>\<open>GET\<close> reaches \<open>ServeOCSP\<close> exactly with one proper segment, handed over percent-decoded.\<close>

lemma findHandler_GET:
  "findHandler ''GET'' p = RouteOCSP t \<longleftrightarrow>
     (\<exists>seg. p = ''/'' @ seg \<and> CHR ''/'' \<notin> set seg \<and> seg \<notin> {'''', ''.'', ''..''} \<and> t = pathUnescape seg \<and>
        t \<notin> {''health'', ''metrics'', ''/''})" (is "?l \<longleftrightarrow> ?r")
proof
  assume ?l
  then have c: "cleanPath p = p" and m: "match_GET p = Some (RouteOCSP t)"
    by (auto simp: findHandler_def mux_match_def Let_def split: if_splits option.splits)
  from c cleanPath_rooted [of p] obtain seg where p: "p = ''/'' @ seg" by auto
  have ne: "seg \<noteq> ''''" using m p by (auto simp: match_GET_def firstSegment_def split: if_splits)
  with m p have "dropWhile (\<lambda>c. c \<noteq> CHR ''/'') seg = []" and t: "t = pathUnescape (takeWhile (\<lambda>c. c \<noteq> CHR ''/'') seg)"
    "t \<notin> {''health'', ''metrics'', ''/''}"
    by (auto simp: match_GET_def firstSegment_def Let_def split: if_splits)
  then have ns: "CHR ''/'' \<notin> set seg" by (auto simp: dropWhile_eq_Nil_conv)
  then have "takeWhile (\<lambda>c. c \<noteq> CHR ''/'') seg = seg" by (auto simp: takeWhile_eq_all_conv)
  with t have t: "t = pathUnescape seg" "t \<notin> {''health'', ''metrics'', ''/''}" by simp_all
  moreover have "seg \<noteq> ''.''" "seg \<noteq> ''..''"
    using c p cleanPath_dots by auto
  ultimately show ?r using p ns ne by (intro exI [of _ seg]) simp
next
  assume ?r
  then obtain seg where p: "p = ''/'' @ seg" and ns: "CHR ''/'' \<notin> set seg" and ne: "seg \<notin> {'''', ''.'', ''..''}"
    and t: "t = pathUnescape seg" "t \<notin> {''health'', ''metrics'', ''/''}" by blast
  from ns have tw: "takeWhile (\<lambda>c. c \<noteq> CHR ''/'') seg = seg" "dropWhile (\<lambda>c. c \<noteq> CHR ''/'') seg = []"
    by (auto simp: takeWhile_eq_all_conv dropWhile_eq_Nil_conv)
  have "firstSegment p = (t, '''')" using ne by (simp add: p t(1) firstSegment_def tw)
  with t(2) have "match_GET p = Some (RouteOCSP t)" by (simp add: match_GET_def)
  with cleanPath_segment [OF ns ne] show ?l by (simp add: p findHandler_def mux_match_def)
qed

lemma EncodeToString_DER: "\<exists>r. EncodeToString e (0x30 # bs) = CHR ''M'' # r"
proof -
  have "char_of (77 :: nat) = CHR ''M''" by code_simp
  then have "sextet_char e 12 = CHR ''M''" by (simp add: sextet_char_def sextet_code_def)
  then show ?thesis by (cases "(e, 0x30 # bs)" rule: EncodeToString.cases) auto
qed

lemma pathUnescape_M:
  assumes "pathUnescape seg = CHR ''M'' # r"
  shows "seg \<notin> {'''', ''.'', ''..''}"
  using assms by (auto simp: pathUnescape_def)

section \<open>Properties\<close>

text \<open>
  C33: a GET request whose path is one segment that percent-decodes to any base64 form of a DER request
  (which starts with the tag of a SEQUENCE) of at most 10 KB reaches \<open>ServeOCSP\<close>, which reads exactly
  those bytes: neither the routes \<open>/health\<close> and \<open>/metrics\<close> nor path cleaning get in the way.
\<close>
theorem GET_reaches_ServeOCSP:
  assumes "bs = 0x30 # rest" and "length bs \<le> maxOCSPRequestSize" and "e \<in> set ocspGetEncodings"
    and "CHR ''/'' \<notin> set seg" and "pathUnescape seg = EncodeToString e bs"
  shows "findHandler ''GET'' (''/'' @ seg) = RouteOCSP (EncodeToString e bs) \<and>
    read_request ttl \<lparr>q_Method = ''GET'', q_body = body, q_request = EncodeToString e bs\<rparr> =
      Inr (bs, [(''Cache-Control'', max_age ttl)])"
proof -
  obtain r where m: "EncodeToString e bs = CHR ''M'' # r" using EncodeToString_DER assms(1) by blast
  have "findHandler ''GET'' (''/'' @ seg) = RouteOCSP (EncodeToString e bs)"
    using pathUnescape_M [of seg r] assms(4,5) by (simp add: findHandler_GET m)
  moreover have "decodeOCSPGetRequest (EncodeToString e bs) = Inr bs"
    using assms(1-3) by (intro decode_encoded) simp_all
  ultimately show ?thesis by (simp add: read_request_def)
qed

text \<open>
  C34: the listener is the one the configuration asks for.  Plain HTTP is served exactly when TLS is off;
  with TLS on, either the configured certificate is served with at least TLS 1.2 (and 1.3 when that is
  set), or ACME is used for the configured host with a cache directory that a probe showed to be
  writable, or the server refuses to start.
\<close>
theorem listener_never_downgrades:
  "case fst (open_listener ac pe files sc) of
     Inr (ListenHTTP a) \<Rightarrow> \<not> tls_Enabled (srv_TLS sc) \<and> a = srv_ListenAddr sc
   | Inr (ListenTLS a c k cfg) \<Rightarrow>
       tls_Enabled (srv_TLS sc) \<and> a = srv_ListenAddr sc \<and>
       (if tls_CertFile (srv_TLS sc) \<noteq> '''' \<and> tls_KeyFile (srv_TLS sc) \<noteq> ''''
        then c = tls_CertFile (srv_TLS sc) \<and> k = tls_KeyFile (srv_TLS sc) \<and> tls_VersionTLS12 \<le> tc_MinVersion cfg \<and>
          (tc_MinVersion cfg = tls_VersionTLS13 \<longleftrightarrow> tls_MinVersion (srv_TLS sc) = ''1.3'') \<and> tc_GetCertificate cfg = None
        else c = '''' \<and> k = '''' \<and>
          (\<exists>m. cfg = ac m \<and> am_host m = tls_ACMEHost (srv_TLS sc) \<and> am_host m \<noteq> '''' \<and> am_cacheDir m \<noteq> '''' \<and>
             fst (ensureACMECacheDir pe (am_cacheDir m) files) = None))
   | Inl err \<Rightarrow> tls_Enabled (srv_TLS sc)"
  by (auto simp: open_listener_def Let_def tlsMinVersion_def tls_VersionTLS12_def tls_VersionTLS13_def
      DefaultACMECacheDir_def split: prod.splits option.splits intro!: exI)

text \<open>
  C37: the probe of the ACME cache directory succeeds exactly when the directory exists or can be
  created, a file can be created and closed in it, and that file is gone afterwards, whoever removed it;
  it then leaves no file behind.  \<open>os.CreateTemp\<close> never picks the name of an existing file.
\<close>
theorem acme_probe_exact:
  assumes "case pe_CreateTemp pe dir of None \<Rightarrow> True | Some f \<Rightarrow> f \<notin> files"
  shows "ensureACMECacheDir pe dir files = (None, files') \<longleftrightarrow>
    files' = files \<and> pe_MkdirAll pe dir \<and> pe_CreateTemp pe dir \<noteq> None \<and> pe_Close pe \<and> (pe_snatched pe \<or> pe_Remove pe)"
  using assms by (auto simp: ensureACMECacheDir_def os_Remove_def Let_def split: option.splits)

lemma Start_None:
  "fst (Start sx cfg) = None \<longleftrightarrow>
      ParseDuration (cac_TTL (cfg_Cache cfg)) \<noteq> None \<and> sx_shutdown sx \<and>
      (sx_wake sx = CtxDone \<or>
       (\<exists>l. fst (open_listener (sx_autocert sx) (sx_probe sx) (sx_files sx) (cfg_Server cfg)) = Inr l) \<and> sx_listen sx \<noteq> Some ListenError)"
  by (auto simp: Start_def listener_returns_def shutdown_def
      split: option.splits prod.splits sum.splits wake.splits listen_result.splits)

text \<open>
  C40: in ACME mode the configured minimum TLS version has no effect.  When the server listens without a
  configured certificate, its TLS configuration, minimum version included, is what the certificate
  manager for the configured host, cache directory and directory URL returns, untouched; it is the same
  whatever minimum version is configured.
\<close>
theorem acme_ignores_min_version:
  assumes "tls_Enabled (srv_TLS sc)" and "tls_CertFile (srv_TLS sc) = '''' \<or> tls_KeyFile (srv_TLS sc) = ''''"
    and "fst (open_listener ac pe files sc) = Inr l"
  shows "fst (open_listener ac pe files (sc\<lparr>srv_TLS := (srv_TLS sc)\<lparr>tls_MinVersion := v\<rparr>\<rparr>)) =
    Inr (ListenTLS (srv_ListenAddr sc) '''' ''''
      (ac \<lparr>am_host = tls_ACMEHost (srv_TLS sc),
           am_cacheDir = (if tls_ACMECacheDir (srv_TLS sc) = '''' then ''/var/lib/ocsp-responder/acme'' else tls_ACMECacheDir (srv_TLS sc)),
           am_directory = (if tls_ACMECAUrl (srv_TLS sc) = '''' then None else Some (tls_ACMECAUrl (srv_TLS sc)))\<rparr>))"
  using assms
  by (auto simp: open_listener_def DefaultACMECacheDir_def Let_def split: prod.splits option.splits if_splits)

section \<open>Witnesses\<close>

text \<open>The base64 text of the bytes 30, 0f, c0 (hexadecimal) is \<open>MA/A\<close>, sent with its slash escaped.\<close>

theorem GET_reaches_ServeOCSP_witness:
  "findHandler ''GET'' ''/MA%2FA'' = RouteOCSP ''MA/A'' \<and>
   read_request Hour \<lparr>q_Method = ''GET'', q_body = ([], False), q_request = ''MA/A''\<rparr> =
     Inr ([0x30, 0x0f, 0xc0], [(''Cache-Control'', max_age Hour)])"
proof -
  have enc: "EncodeToString StdEncoding [0x30, 0x0f, 0xc0] = ''MA/A''" by code_simp
  have une: "pathUnescape ''MA%2FA'' = ''MA/A''" by code_simp
  have "findHandler ''GET'' (''/'' @ ''MA%2FA'') = RouteOCSP (EncodeToString StdEncoding [0x30, 0x0f, 0xc0]) \<and>
    read_request Hour \<lparr>q_Method = ''GET'', q_body = ([], False), q_request = EncodeToString StdEncoding [0x30, 0x0f, 0xc0]\<rparr> =
      Inr ([0x30, 0x0f, 0xc0], [(''Cache-Control'', max_age Hour)])"
    by (rule GET_reaches_ServeOCSP [OF refl])
      (simp_all only: enc une maxOCSPRequestSize_def ocspGetEncodings_def, simp_all)
  then show ?thesis unfolding enc by simp
qed

definition ex_probe_env :: probe_env where
  "ex_probe_env = \<lparr>pe_MkdirAll = (\<lambda>_. True), pe_CreateTemp = (\<lambda>d. Some (d @ ''/.writable-1'')), pe_Close = True,
     pe_snatched = True, pe_Remove = False\<rparr>"

text \<open>A probe whose file another process removed first.\<close>

theorem acme_probe_exact_witness: "ensureACMECacheDir ex_probe_env ''/acme'' {''/acme/k''} = (None, {''/acme/k''})"
  using acme_probe_exact [where pe = ex_probe_env and dir = "''/acme''" and files = "{''/acme/k''}" and files' = "{''/acme/k''}"]
  by (simp add: ex_probe_env_def)

definition ex_acme_server :: ServerConfig where
  "ex_acme_server = \<lparr>srv_ListenAddr = ''0.0.0.0:443'', srv_TLS = \<lparr>tls_Enabled = True, tls_CertFile = '''', tls_KeyFile = '''',
     tls_MinVersion = ''1.2'', tls_ACMEHost = ''ocsp.example'', tls_ACMECAUrl = '''', tls_ACMECacheDir = ''''\<rparr>\<rparr>"

text \<open>A manager that leaves the minimum version unset: 1.3 is configured, and the server does not ask for it.\<close>

definition ex_autocert :: "acme_manager \<Rightarrow> tls_config" where
  "ex_autocert m = \<lparr>tc_MinVersion = 0, tc_GetCertificate = Some m\<rparr>"

theorem acme_ignores_min_version_witness:
  "\<exists>a c k cfg. fst (open_listener ex_autocert ex_probe_env {}
       (ex_acme_server\<lparr>srv_TLS := (srv_TLS ex_acme_server)\<lparr>tls_MinVersion := ''1.3''\<rparr>\<rparr>)) = Inr (ListenTLS a c k cfg) \<and>
     tc_MinVersion cfg = 0"
proof -
  let ?t = "srv_TLS ex_acme_server"
  have t: "tls_Enabled ?t" "tls_CertFile ?t = '''' \<or> tls_KeyFile ?t = ''''" by (simp_all add: ex_acme_server_def)
  have "ensureACMECacheDir ex_probe_env d {} = (None, {})" for d
    by (simp add: ensureACMECacheDir_def ex_probe_env_def os_Remove_def)
  then have "\<exists>l. fst (open_listener ex_autocert ex_probe_env {} ex_acme_server) = Inr l"
    by (auto simp: open_listener_def ex_acme_server_def Let_def split: prod.splits option.splits)
  then obtain l where "fst (open_listener ex_autocert ex_probe_env {} ex_acme_server) = Inr l" by blast
  from acme_ignores_min_version [OF t this, of "''1.3''"] show ?thesis by (intro exI conjI, assumption) (simp add: ex_autocert_def)
qed

end
