(* ===== verification/Program.thy ===== *)
theory Program
  imports Server
begin

text \<open>
  \<open>cmd/ocsp-responder/main.go\<close>: building the logger and the configured source, and wiring the program
  together.  \<open>AnySource\<close> is what the interface value of type \<open>source.Source\<close> holds; its operations
  dispatch on it.
\<close>

section \<open>The source behind the interface\<close>

datatype AnySource =
    AnyFile FileSource
  | AnyStatic StaticSource
  | AnyHTTP HTTPSource

definition on_state :: "('s \<Rightarrow> 't) \<Rightarrow> 'r \<times> 's \<times> 'm \<Rightarrow> 'r \<times> 't \<times> 'm" where
  "on_state f res = (case res of (r, s, ms) \<Rightarrow> (r, f s, ms))"

fun any_GetStatus ::
  "http_env \<Rightarrow> int \<Rightarrow> Certificate option \<Rightarrow> AnySource \<Rightarrow> (source_error + CertStatus option) \<times> AnySource \<times> metric_call list" where
  "any_GetStatus e n i (AnyFile s) = on_state AnyFile (FileSource_GetStatus (call_env.truncate e) n i s)"
| "any_GetStatus e n i (AnyStatic s) = on_state AnyStatic (StaticSource_GetStatus (call_env.truncate e) n i s)"
| "any_GetStatus e n i (AnyHTTP s) = on_state AnyHTTP (HTTPSource_GetStatus e n i s)"

fun any_Name :: "AnySource \<Rightarrow> string" where
  "any_Name (AnyFile s) = FileSource_Name s"
| "any_Name (AnyStatic s) = StaticSource_Name s"
| "any_Name (AnyHTTP s) = HTTPSource_Name s"

fun any_Healthy :: "Time \<Rightarrow> AnySource \<Rightarrow> bool" where
  "any_Healthy now (AnyFile s) = FileSource_Healthy now s"
| "any_Healthy now (AnyStatic s) = StaticSource_Healthy now s"
| "any_Healthy now (AnyHTTP s) = HTTPSource_Healthy now s"

definition any_source :: "(http_env, AnySource) Source" where
  "any_source = \<lparr>GetStatus = any_GetStatus, Name = any_Name, Healthy = any_Healthy\<rparr>"

section \<open>The logger\<close>

datatype log_level = LevelDebug | LevelInfo | LevelWarn | LevelError

datatype log_handler = TextHandler | JSONHandler

record Logger =
  lg_level :: log_level
  lg_handler :: log_handler

definition buildLogger :: "string \<Rightarrow> string \<Rightarrow> Logger" where
  "buildLogger level format =
     \<lparr>lg_level = (if level = ''debug'' then LevelDebug
                  else if level = ''warn'' then LevelWarn
                  else if level = ''error'' then LevelError
                  else LevelInfo),
      lg_handler = (if format = ''json'' then JSONHandler else TextHandler)\<rparr>"

section \<open>The configured source\<close>

datatype source_setup_error =
    InvalidReloadInterval
  | InvalidExpiryGrace
  | InvalidHTTPTimeout
  | InvalidRetryBackoff
  | InvalidHTTPCacheTTL
  | UnknownSourceType string
  | SourceError source_error

text \<open>What the constructors read: CRL library, files and network as they are at start-up, the clock.\<close>

record source_world =
  sw_crl_lib :: crl_lib
  sw_crl_io :: crl_io
  sw_now :: Time
  sw_ReadFile :: "string \<Rightarrow> bytes option"
  sw_hasPEM :: "bytes \<Rightarrow> bool"

definition new_file_source ::
  "source_world \<Rightarrow> FileSourceConfig \<Rightarrow> Certificate option \<Rightarrow> source_setup_error + AnySource \<times> fs_log list" where
  "new_file_source w f issuerCert =
     (case ParseDuration (fsc_ReloadInterval f) of
        None \<Rightarrow> Inl InvalidReloadInterval
      | Some interval \<Rightarrow>
          (case (if fsc_ExpiryGrace f \<noteq> ''''
                 then (case ParseDuration (fsc_ExpiryGrace f) of
                         None \<Rightarrow> Inl InvalidExpiryGrace
                       | Some grace \<Rightarrow> Inr [WithLogger, WithCRLExpiryGrace grace])
                 else Inr [WithLogger]) of
             Inl err \<Rightarrow> Inl err
           | Inr opts \<Rightarrow>
               (case NewFileSource (sw_crl_lib w) (sw_crl_io w) (sw_now w) (fsc_CRLPath f) interval issuerCert opts of
                  Inl err \<Rightarrow> Inl (SourceError err)
                | Inr (s, logs) \<Rightarrow> Inr (AnyFile s, logs))))"

definition new_http_source :: "source_world \<Rightarrow> HTTPSourceConfig \<Rightarrow> source_setup_error + AnySource" where
  "new_http_source w h =
     (case ParseDuration (hsc_Timeout h) of
        None \<Rightarrow> Inl InvalidHTTPTimeout
      | Some tmo \<Rightarrow>
          (case (if hsc_RetryBackoff h \<noteq> '''' then ParseDuration (hsc_RetryBackoff h) else Some (500 * Millisecond)) of
             None \<Rightarrow> Inl InvalidRetryBackoff
           | Some retryBackoff \<Rightarrow>
               (case (if hsc_CacheTTL h \<noteq> '''' then ParseDuration (hsc_CacheTTL h) else Some 0) of
                  None \<Rightarrow> Inl InvalidHTTPCacheTTL
                | Some cacheTTL \<Rightarrow>
                    (let mapping = \<lparr>PathTemplate = map_PathTemplate (hsc_Mapping h), StatusField = map_StatusField (hsc_Mapping h),
                           GoodValues = map_GoodValues (hsc_Mapping h), RevokedValues = map_RevokedValues (hsc_Mapping h)\<rparr>
                     in case NewHTTPSource (sw_ReadFile w) (sw_hasPEM w) (hsc_BaseURL h) (hsc_RootCertFile h) tmo mapping
                               (hsc_RetryMax h) retryBackoff cacheTTL of
                          Inl err \<Rightarrow> Inl (SourceError err)
                        | Inr s \<Rightarrow> Inr (AnyHTTP s)))))"

definition newSource ::
  "source_world \<Rightarrow> Config \<Rightarrow> Certificate option \<Rightarrow> source_setup_error + AnySource \<times> fs_log list" where
  "newSource w cfg issuerCert =
     (let sc = cfg_Source cfg in
      if src_Type sc = ''file'' then new_file_source w (src_File sc) issuerCert
      else if src_Type sc = ''static'' then
        (case NewStaticSource (stc_Status (src_Static sc)) of
           Inl err \<Rightarrow> Inl (SourceError err)
         | Inr s \<Rightarrow> Inr (AnyStatic s, []))
      else if src_Type sc = ''http'' then
        (case new_http_source w (src_HTTP sc) of Inl err \<Rightarrow> Inl err | Inr s \<Rightarrow> Inr (s, []))
      else Inl (UnknownSourceType (src_Type sc)))"

section \<open>Start-up\<close>

datatype startup_error =
    ConfigError config_error
  | InvalidResponseValidity
  | SignerError signer_error
  | SourceSetup source_setup_error
  | MetricsPanic
  | InvalidCacheTTLSetting

record 'r world =
  wd_ReadFile :: "string \<Rightarrow> bytes option"
  wd_yaml :: "bytes \<Rightarrow> yaml_result"
  wd_signer_lib :: signer_lib
  wd_signer_now :: Time
  wd_source :: source_world
  wd_prom :: "'r prom_lib"
  wd_xocsp :: xocsp_CreateResponse

record 'r program =
  pg_logger :: Logger
  pg_server :: "(http_env, AnySource) Server"
  pg_metrics :: Metrics
  pg_registry :: 'r
  pg_monitor :: "Time \<Rightarrow> (Time \<times> Time) list \<Rightarrow> monitor_event list"

fun observe :: "AnySource \<Rightarrow> AnySource" where
  "observe (AnyHTTP s) = AnyHTTP (SetObserver True s)"
| "observe s = s"

text \<open>
  \<open>main\<close> up to the call of \<open>Start\<close>; an error is an exit with status 1 (a panic for the metrics).  The
  program it leaves holds the expiry monitor it started, which acts as its ticker fires.
\<close>

definition startup :: "'r world \<Rightarrow> string \<Rightarrow> startup_error + 'r program" where
  "startup w configPath =
     (case Load (wd_ReadFile w) (wd_yaml w) configPath of
        Inl err \<Rightarrow> Inl (ConfigError err)
      | Inr cfg \<Rightarrow>
        (let logger = buildLogger (log_Level (cfg_Logging cfg)) (log_Format (cfg_Logging cfg)) in
         case ParseDuration (sgc_ResponseValidity (cfg_Signer cfg)) of
           None \<Rightarrow> Inl InvalidResponseValidity
         | Some validity \<Rightarrow>
           (case NewSigner (wd_signer_lib w) (wd_signer_now w) (sgc_CertFile (cfg_Signer cfg)) (sgc_KeyFile (cfg_Signer cfg))
                   (sgc_IssuerCertFile (cfg_Signer cfg)) validity of
              Inl err \<Rightarrow> Inl (SignerError err)
            | Inr (sg, _) \<Rightarrow>
              (case newSource (wd_source w) cfg (Some (Signer_IssuerCert sg)) of
                 Inl err \<Rightarrow> Inl (SourceSetup err)
               | Inr (src, _) \<Rightarrow>
                 (case NewMetrics (wd_prom w) of
                    None \<Rightarrow> Inl MetricsPanic
                  | Some (m, reg) \<Rightarrow>
                    (let src' = observe src in
                     case ParseDuration (cac_TTL (cfg_Cache cfg)) of
                       None \<Rightarrow> Inl InvalidCacheTTLSetting
                     | Some cacheTTL \<Rightarrow>
                         (let resp = NewResponder any_source src' (signer_iface (wd_xocsp w)) sg cacheTTL
                                (cac_MaxEntries (cfg_Cache cfg)) (cac_Enabled (cfg_Cache cfg)) True True
                          in Inr \<lparr>pg_logger = logger, pg_server = New cfg resp sg True, pg_metrics = m,
                                  pg_registry = reg, pg_monitor = StartExpiryMonitor True sg\<rparr>)))))))"

text \<open>
  \<open>flag.Parse\<close> for the one string flag \<open>config\<close>: \<open>-config v\<close>, \<open>-config=v\<close> or either with two dashes; parsing
  ends at the first argument that is not a flag or after a lone double dash.
\<close>

datatype flag_result = FlagValue string | FlagHelp | FlagError

fun parse_flags :: "string \<Rightarrow> string list \<Rightarrow> flag_result" where
  "parse_flags value [] = FlagValue value"
| "parse_flags value (s # args) =
     (if length s < 2 \<or> hd s \<noteq> CHR ''-'' \<or> s = ''--'' then FlagValue value
      else
        let flag = (if s ! 1 = CHR ''-'' then drop 2 s else drop 1 s);
            name = takeWhile (\<lambda>c. c \<noteq> CHR ''='') flag;
            rest = dropWhile (\<lambda>c. c \<noteq> CHR ''='') flag
        in if flag = '''' \<or> hd flag = CHR ''-'' \<or> hd flag = CHR ''='' then FlagError
           else if name = ''help'' \<or> name = ''h'' then FlagHelp
           else if name \<noteq> ''config'' then FlagError
           else if rest \<noteq> '''' then parse_flags (tl rest) args
           else (case args of [] \<Rightarrow> FlagError | v # args' \<Rightarrow> parse_flags v args'))"

definition defaultConfigPath :: string where
  "defaultConfigPath = ''config/ocsp-responder.yaml''"

text \<open>
  The exit status of the program: that of \<open>flag.Parse\<close> when it exits (0 for help, 2 for a bad flag), 1 after
  any error, 0 after an orderly shutdown (2 is also the run time's, after a panic).  On return the
  deferred \<open>Stop\<close> and \<open>cancel\<close> end the goroutines; \<open>os.Exit\<close> skips them, and the process ends them.
\<close>

definition main :: "'r world \<Rightarrow> start_env \<Rightarrow> string list \<Rightarrow> nat" where
  "main w sx args =
     (case parse_flags defaultConfigPath args of
        FlagHelp \<Rightarrow> 0
      | FlagError \<Rightarrow> 2
      | FlagValue configPath \<Rightarrow>
          (case startup w configPath of
             Inl MetricsPanic \<Rightarrow> 2
           | Inl _ \<Rightarrow> 1
           | Inr p \<Rightarrow> (case fst (Start sx (sv_cfg (pg_server p))) of None \<Rightarrow> 0 | Some _ \<Rightarrow> 1)))"

section \<open>The contracts, behind the interface\<close>

fun any_inv :: "crl_lib \<Rightarrow> AnySource \<Rightarrow> bool" where
  "any_inv x (AnyFile s) = fs_inv x s"
| "any_inv x (AnyStatic s) = static_inv s"
| "any_inv x (AnyHTTP s) = http_inv s"

fun any_vouches :: "crl_lib \<Rightarrow> http_env \<Rightarrow> AnySource \<Rightarrow> int \<Rightarrow> bool" where
  "any_vouches x e (AnyFile s) n = file_vouches x (call_env.truncate e) s n"
| "any_vouches x e (AnyStatic s) n = (st_status s = StatusGood)"
| "any_vouches x e (AnyHTTP s) n = http_vouches e s n"

fun any_revokes :: "crl_lib \<Rightarrow> http_env \<Rightarrow> AnySource \<Rightarrow> int \<Rightarrow> RevocationInfo \<Rightarrow> bool" where
  "any_revokes x e (AnyFile s) n ri = file_revokes x (call_env.truncate e) s n ri"
| "any_revokes x e (AnyStatic s) n ri = (st_status s = StatusRevoked \<and> ri = \<lparr>RevokedAt = ce_now e, Reason = 0\<rparr>)"
| "any_revokes x e (AnyHTTP s) n ri = http_revokes e s n ri"

lemma ctx_truncate [simp]: "ce_ctxErr (call_env.truncate e) = ce_ctxErr e" "ce_now (call_env.truncate e) = ce_now e"
  by (simp_all add: call_env.truncate_def)

lemma on_state_eq: "on_state f res = (r, t, ms) \<longleftrightarrow> (\<exists>s. res = (r, s, ms) \<and> t = f s)"
  by (cases res) (auto simp: on_state_def)

lemma source_ops [simp]:
  "GetStatus file_source = FileSource_GetStatus" "GetStatus static_source = StaticSource_GetStatus"
  "GetStatus http_source = HTTPSource_GetStatus" "GetStatus any_source = any_GetStatus"
  "Name file_source = FileSource_Name" "Name static_source = StaticSource_Name" "Name http_source = HTTPSource_Name"
  "Name any_source = any_Name"
  by (simp_all add: file_source_def static_source_def http_source_def any_source_def)

lemmas file_laws = crlsrc.inv_GetStatus [simplified] crlsrc.wf_GetStatus [simplified] crlsrc.good_GetStatus [simplified]
  crlsrc.revoked_GetStatus [simplified]

lemmas static_laws = static.inv_GetStatus [simplified] static.wf_GetStatus [simplified] static.good_GetStatus [simplified]
  static.revoked_GetStatus [simplified]

lemmas http_laws = casrc.inv_GetStatus [simplified] casrc.wf_GetStatus [simplified] casrc.good_GetStatus [simplified]
  casrc.revoked_GetStatus [simplified]

interpretation any: status_source any_source "any_inv x" ce_ctxErr "any_vouches x" "any_revokes x"
proof unfold_locales
  fix e :: http_env and n i s r s' ev
  assume "any_inv x s" and "GetStatus any_source e n i s = (r, s', ev)"
  then show "any_inv x s'"
    by (cases s) (auto simp: on_state_eq intro: file_laws(1) static_laws(1) http_laws(1))
next
  fix e :: http_env and c n i s
  assume "ce_ctxErr e = Some c"
  then show "GetStatus any_source e n i s = (Inl (CtxErr c), s, [])"
    by (cases s) (simp_all add: on_state_eq FileSource_GetStatus_def StaticSource_GetStatus_def HTTPSource_GetStatus_def)
next
  fix e :: http_env and n i s cs s' ev
  assume a: "any_inv x s" "GetStatus any_source e n i s = (Inr (Some cs), s', ev)"
  then show "wf_CertStatus cs"
    by (cases s) (auto simp: on_state_eq intro: file_laws(2) static_laws(2) http_laws(2))
  show "any_vouches x e s n" if "cs_Status cs = StatusGood"
    using a that by (cases s) (auto simp: on_state_eq intro: file_laws(3) http_laws(3) dest: static_laws(3))
  show "any_revokes x e s n ri" if "cs_Status cs = StatusRevoked" "cs_RevocationInfo cs = Some ri" for ri
    using a that by (cases s) (auto simp: on_state_eq intro: file_laws(4) http_laws(4) dest: static_laws(4))
qed

interpretation any: telemetry_source any_source
proof unfold_locales
  fix e :: http_env and n i s r s' ms
  assume "GetStatus any_source e n i s = (r, s', ms)"
  then show "list_all source_call ms"
    by (cases s) (auto simp: on_state_eq dest: crlsrc.source_calls [simplified] static.source_calls [simplified]
        casrc.source_calls [simplified])
next
  fix s
  show "ascii (Name any_source s)"
    by (cases s) (simp_all add: crlsrc.name_ascii [simplified] static.name_ascii [simplified] casrc.name_ascii [simplified])
qed

interpretation svc: ocsp_service any_source "any_inv x" ce_ctxErr "any_vouches x" "any_revokes x" "signer_iface xocsp"
  "signed_for xocsp" for x xocsp
  by (intro ocsp_service.intro) (simp_all add: any.status_source_axioms delegated.response_signer_axioms)

section \<open>What start-up guarantees\<close>

lemma Load_valid: "Load rd yaml path = Inr cfg \<Longrightarrow> valid_config cfg"
  by (auto simp: Load_def validate_iff split: option.splits yaml_result.splits)

text \<open>A validated configuration only fails in the constructors of the sources.\<close>

lemma newSource_valid:
  assumes "source_ok (cfg_Source cfg)" and "newSource w cfg (Some c) = Inl err"
  shows "\<exists>e. err = SourceError e"
  using assms
  by (auto simp: source_ok_def newSource_def new_file_source_def new_http_source_def duration_ok_def duration_sat_def
      Let_def split: if_splits option.splits sum.splits)

lemma apply_option_grace:
  "\<forall>d. WithCRLExpiryGrace d \<in> set opts \<longrightarrow> 0 \<le> d \<Longrightarrow> 0 \<le> fs_expiryGrace s \<Longrightarrow>
     0 \<le> fs_expiryGrace (fold apply_option opts s)"
proof (induction opts arbitrary: s)
  case (Cons o' opts)
  then show ?case by (cases o') auto
qed simp

lemma NewFileSource_grace:
  assumes "NewFileSource x io now path ivl (Some c) opts = Inr (s, l)"
    and "\<forall>d. WithCRLExpiryGrace d \<in> set opts \<longrightarrow> 0 \<le> d"
  shows "0 \<le> fs_expiryGrace s"
proof -
  from assms(1) obtain s0 s1 where s1: "loadCRL x io (fold apply_option opts s0) = Inr s1"
    and s: "s = fst (checkExpiry now s1)" and s0: "fs_expiryGrace s0 = 0"
    by (auto simp: NewFileSource_def Let_def split: sum.splits)
  from apply_option_grace [OF assms(2), of s0] s0 loadCRL_inv [OF s1 subset_UNIV] show ?thesis
    by (auto simp: s checkExpiry_frame dest!: fs_configD)
qed

lemma newSource_file:
  assumes "source_ok (cfg_Source cfg)" and "newSource w cfg (Some c) = Inr (AnyFile fs, logs)"
  shows "0 < fs_reloadInterval fs \<and> 0 \<le> fs_expiryGrace fs \<and> fs_inv (sw_crl_lib w) fs \<and> fs_issuerCert fs = c"
proof -
  let ?f = "src_File (cfg_Source cfg)"
  from assms(2) have ty: "src_Type (cfg_Source cfg) = ''file''"
    by (auto simp: newSource_def new_http_source_def Let_def split: if_splits option.splits sum.splits)
  with assms(1) have ok: "duration_sat (\<lambda>d. 0 < d) (fsc_ReloadInterval ?f)"
    "fsc_ExpiryGrace ?f = '''' \<or> duration_sat (\<lambda>d. 0 \<le> d) (fsc_ExpiryGrace ?f)" by (auto simp: source_ok_def)
  obtain path ivl opts where n: "NewFileSource (sw_crl_lib w) (sw_crl_io w) (sw_now w) path ivl (Some c) opts = Inr (fs, logs)"
    and "0 < ivl" and "\<forall>d. WithCRLExpiryGrace d \<in> set opts \<longrightarrow> 0 \<le> d"
    using assms(2) ok
    by (auto simp: newSource_def ty new_file_source_def duration_sat_def Let_def split: option.splits sum.splits if_splits)
  with NewFileSource_inv [OF n] NewFileSource_grace [OF n] show ?thesis by simp
qed

lemma newSource_inv:
  assumes "source_ok (cfg_Source cfg)" and "newSource w cfg (Some c) = Inr (src, logs)"
  shows "any_inv (sw_crl_lib w) (observe src)"
proof (cases src)
  case (AnyFile fs)
  with newSource_file assms show ?thesis by simp
next
  case (AnyStatic s)
  with assms(2) show ?thesis
    by (auto simp: newSource_def new_file_source_def new_http_source_def Let_def
        intro: NewStaticSource_inv split: if_splits option.splits sum.splits)
next
  case (AnyHTTP s)
  with assms(2) obtain rd hp url rf tmo m k bo ttl where "NewHTTPSource rd hp url rf tmo m k bo ttl = Inr s"
    by (auto simp: newSource_def new_file_source_def new_http_source_def Let_def split: if_splits option.splits sum.splits)
  from NewHTTPSource_inv(1) [OF this] show ?thesis by (simp add: AnyHTTP http_inv_def SetObserver_def)
qed

text \<open>What a successful start-up leaves behind.\<close>

lemma startup_Inr:
  assumes "startup w path = Inr p"
  obtains cfg sg slogs src logs ttl where "Load (wd_ReadFile w) (wd_yaml w) path = Inr cfg"
    and "NewSigner (wd_signer_lib w) (wd_signer_now w) (sgc_CertFile (cfg_Signer cfg)) (sgc_KeyFile (cfg_Signer cfg))
           (sgc_IssuerCertFile (cfg_Signer cfg)) (sg_validity sg) = Inr (sg, slogs)"
    and "newSource (wd_source w) cfg (Some (sg_issuerCert sg)) = Inr (src, logs)"
    and "NewMetrics (wd_prom w) = Some (pg_metrics p, pg_registry p)"
    and "ParseDuration (cac_TTL (cfg_Cache cfg)) = Some ttl"
    and "ParseDuration (sgc_ResponseValidity (cfg_Signer cfg)) = Some (sg_validity sg)"
    and "pg_server p = New cfg (NewResponder any_source (observe src) (signer_iface (wd_xocsp w)) sg ttl
           (cac_MaxEntries (cfg_Cache cfg)) (cac_Enabled (cfg_Cache cfg)) True True) sg True"
    and "pg_monitor p = StartExpiryMonitor True sg"
proof -
  have v: "NewSigner x now a b c validity = Inr (sg, l) \<Longrightarrow> sg_validity sg = validity" for x now a b c validity sg l
    by (auto simp: NewSigner_def split: sum.splits if_splits option.splits)
  from assms obtain cfg validity sg slogs src logs m reg ttl where
    "Load (wd_ReadFile w) (wd_yaml w) path = Inr cfg"
    "ParseDuration (sgc_ResponseValidity (cfg_Signer cfg)) = Some validity"
    "NewSigner (wd_signer_lib w) (wd_signer_now w) (sgc_CertFile (cfg_Signer cfg)) (sgc_KeyFile (cfg_Signer cfg))
       (sgc_IssuerCertFile (cfg_Signer cfg)) validity = Inr (sg, slogs)"
    "newSource (wd_source w) cfg (Some (Signer_IssuerCert sg)) = Inr (src, logs)"
    "NewMetrics (wd_prom w) = Some (m, reg)" "ParseDuration (cac_TTL (cfg_Cache cfg)) = Some ttl"
    "p = \<lparr>pg_logger = buildLogger (log_Level (cfg_Logging cfg)) (log_Format (cfg_Logging cfg)),
       pg_server = New cfg (NewResponder any_source (observe src) (signer_iface (wd_xocsp w)) sg ttl
           (cac_MaxEntries (cfg_Cache cfg)) (cac_Enabled (cfg_Cache cfg)) True True) sg True,
       pg_metrics = m, pg_registry = reg, pg_monitor = StartExpiryMonitor True sg\<rparr>"
    by (auto simp: startup_def Let_def split: sum.splits option.splits prod.splits)
  with v [OF this(3)] show ?thesis by (intro that) (simp_all add: Signer_IssuerCert_def)
qed

lemma newSource_http:
  assumes "newSource w cfg i = Inr (AnyHTTP s, logs)"
  shows "0 < hs_backoff s"
  using assms
  by (auto simp: newSource_def new_file_source_def new_http_source_def NewHTTPSource_def Let_def
      split: if_splits option.splits sum.splits)

text \<open>The exits of \<open>main\<close> that a validated configuration leaves.\<close>

lemma startup_error:
  assumes "startup w path = Inl err"
  shows "err \<in> range ConfigError \<union> range SignerError \<union> range (SourceSetup \<circ> SourceError) \<union> {MetricsPanic}"
proof (cases "Load (wd_ReadFile w) (wd_yaml w) path")
  case (Inl e)
  with assms show ?thesis by (auto simp: startup_def)
next
  case (Inr cfg)
  then have ok: "source_ok (cfg_Source cfg)" and "ParseDuration (sgc_ResponseValidity (cfg_Signer cfg)) \<noteq> None"
    and "ParseDuration (cac_TTL (cfg_Cache cfg)) \<noteq> None"
    by (auto dest!: Load_valid simp: valid_config_def duration_sat_def duration_ok_def split: option.splits)
  then obtain v ttl where d: "ParseDuration (sgc_ResponseValidity (cfg_Signer cfg)) = Some v"
    "ParseDuration (cac_TTL (cfg_Cache cfg)) = Some ttl" by blast
  let ?sg = "NewSigner (wd_signer_lib w) (wd_signer_now w) (sgc_CertFile (cfg_Signer cfg)) (sgc_KeyFile (cfg_Signer cfg))
      (sgc_IssuerCertFile (cfg_Signer cfg)) v"
  show ?thesis
  proof (cases ?sg)
    case (Inl e)
    with assms show ?thesis by (auto simp: startup_def \<open>Load _ _ _ = _\<close> d Let_def)
  next
    case (Inr a)
    then obtain sg l where sg: "?sg = Inr (sg, l)" by (cases a) auto
    show ?thesis
    proof (cases "newSource (wd_source w) cfg (Some (Signer_IssuerCert sg))")
      case (Inl e)
      with assms newSource_valid [OF ok Inl] show ?thesis by (auto simp: startup_def \<open>Load _ _ _ = _\<close> d sg Let_def)
    next
      case (Inr b)
      with assms show ?thesis
        by (cases b) (auto simp: startup_def \<open>Load _ _ _ = _\<close> d sg Let_def split: option.splits)
    qed
  qed
qed

lemma ensureACMECacheDir_error: "fst (ensureACMECacheDir pe dir files) = Some err \<Longrightarrow> err \<noteq> InvalidCacheTTL"
  by (auto simp: ensureACMECacheDir_def Let_def split: option.splits if_splits prod.splits remove_result.splits)

lemma open_listener_error: "fst (open_listener ac pe files sc) = Inl err \<Longrightarrow> err \<noteq> InvalidCacheTTL"
  by (auto simp: open_listener_def Let_def split: option.splits if_splits prod.splits)
    (metis ensureACMECacheDir_error fst_conv)+

lemma Start_valid:
  assumes "ParseDuration (cac_TTL (cfg_Cache cfg)) = Some ttl"
  shows "fst (Start sx cfg) \<noteq> Some InvalidCacheTTL"
proof -
  obtain l logs files where o: "open_listener (sx_autocert sx) (sx_probe sx) (sx_files sx) (cfg_Server cfg) = (l, logs, files)"
    by (metis prod_cases3)
  have "l \<noteq> Inl InvalidCacheTTL" using open_listener_error [of "sx_autocert sx" "sx_probe sx" "sx_files sx" "cfg_Server cfg"] o by auto
  then show ?thesis
    by (auto simp: Start_def assms o listener_returns_def shutdown_def
        split: sum.splits wake.splits listen_result.splits option.splits)
qed

section \<open>Property\<close>

text \<open>
  C30: whichever backend is configured, a lookup returns an error or a well-formed status, never nothing:
  the status is one of the three named ones, with revocation details exactly when it is \<open>revoked\<close>; the
  state invariant of the backend is kept, so that this holds for every later lookup too.
\<close>
theorem statuses_well_formed:
  assumes "any_inv x s" and "GetStatus any_source e n i s = (r, s', ms)"
  shows "any_inv x s' \<and> (case r of Inl _ \<Rightarrow> True | Inr None \<Rightarrow> False | Inr (Some cs) \<Rightarrow> wf_CertStatus cs)"
proof -
  have "r \<noteq> Inr None"
  proof (cases s)
    case (AnyHTTP h)
    show ?thesis
    proof (cases "ce_ctxErr e")
      case None
      from assms(2) AnyHTTP obtain h' where "HTTPSource_GetStatus e n i h = (r, h', ms)" by (auto simp: on_state_eq)
      from http_GetStatus_cases [OF this None] show ?thesis by cases auto
    qed (use any.ctx_GetStatus [of e _ n i s] assms(2) in auto)
  qed (use assms(2) in \<open>auto simp: on_state_eq FileSource_GetStatus_def StaticSource_GetStatus_def snapshot_answer_def Let_def
      split: option.splits if_splits\<close>)
  with any.inv_GetStatus [OF assms] any.wf_GetStatus [OF assms(1)] assms(2) show ?thesis
    by (auto split: sum.splits option.splits)
qed

text \<open>An HTTP source that asks its CA, and a file source whose CRL revokes the serial.\<close>

theorem statuses_well_formed_witness:
  "any_inv ex_lib (AnyHTTP ex_http) \<and>
   GetStatus any_source ex_http_env 5 None (AnyHTTP ex_http) = (Inr (Some (plain_status StatusGood)), AnyHTTP ex_http_after, []) \<and>
   any_inv ex_lib (AnyHTTP ex_http_after) \<and> wf_CertStatus (plain_status StatusGood) \<and>
   any_inv ex_lib (AnyFile (ex_source ''ca.crl'')) \<and>
   (\<exists>cs. GetStatus any_source (ex_http_env\<lparr>ce_now := Hour\<rparr>) 5 (Some ex_issuer) (AnyFile (ex_source ''ca.crl'')) =
       (Inr (Some cs), AnyFile (ex_source ''ca.crl''), []) \<and> cs_Status cs = StatusRevoked \<and> wf_CertStatus cs)"
proof -
  let ?h = "AnyHTTP ex_http" and ?f = "AnyFile (ex_source ''ca.crl'')"
  have h: "any_inv ex_lib ?h" using NewHTTPSource_inv [OF ex_http_new] by simp
  have hg: "GetStatus any_source ex_http_env 5 None ?h = (Inr (Some (plain_status StatusGood)), AnyHTTP ex_http_after, [])"
    by (simp add: on_state_eq ex_http_lookup)
  have f: "any_inv ex_lib ?f" using NewFileSource_inv [OF ex_new [unfolded ex_new_def]] by simp
  define e where "e = call_env.truncate (ex_http_env\<lparr>ce_now := Hour\<rparr>)"
  have e: "ce_ctxErr e = None" "ce_now e = Hour" by (simp_all add: e_def ex_http_env_def)
  have s: "fs_loaded (ex_source ''ca.crl'')" "fs_thisUpdate (ex_source ''ca.crl'') = Hour"
    "fs_nextUpdate (ex_source ''ca.crl'') = 2 * Hour" "fs_expiryGrace (ex_source ''ca.crl'') = 0"
    "fs_issuerCert (ex_source ''ca.crl'') = ex_issuer" by (simp_all add: ex_source_def)
  have "FileSource_GetStatus e 5 (Some ex_issuer) (ex_source ''ca.crl'') = (Inr (Some (crl_status ex_crl 5)), ex_source ''ca.crl'', [])"
    using snapshot_answer_status [OF ex_installed [of "''ca.crl''"], of 5 ex_issuer ex_issuer]
    by (simp add: FileSource_GetStatus_def e s window_simps)
  then have fg: "GetStatus any_source (ex_http_env\<lparr>ce_now := Hour\<rparr>) 5 (Some ex_issuer) ?f =
      (Inr (Some (crl_status ex_crl 5)), ?f, [])"
    by (simp add: on_state_eq e_def)
  have "cs_Status (crl_status ex_crl 5) = StatusRevoked" by (simp add: crl_status_def crl_entry_def ex_crl_def)
  with statuses_well_formed [OF h hg] statuses_well_formed [OF f fg] h hg f fg show ?thesis by auto
qed

end
