(* ===== verification/FileSourceConc.thy ===== *)
theory FileSourceConc
  imports FileSource
begin

text \<open>
  The CRL source under concurrent use: request goroutines run \<open>GetStatus\<close> while the reload goroutine
  replaces the CRL.  A lookup is two atomic actions, the check of \<open>loaded\<close> and the snapshot under the
  read lock; a reload is the swap of the generation under the write lock, the store to \<open>loaded\<close> and the
  store of the digest, or the withdrawal by \<open>markUnhealthy\<close>.  They interleave freely.
\<close>

section \<open>Actions\<close>

definition swap_generation :: "RevocationList \<Rightarrow> FileSource \<Rightarrow> FileSource" where
  "swap_generation rl s = s\<lparr>fs_revoked := crl_index (rl_Entries rl), fs_thisUpdate := rl_ThisUpdate rl,
     fs_nextUpdate := rl_NextUpdate rl\<rparr>"

definition store_loaded :: "bool \<Rightarrow> FileSource \<Rightarrow> FileSource" where
  "store_loaded b s = s\<lparr>fs_loaded := b\<rparr>"

definition take_snapshot :: "Time \<Rightarrow> int \<Rightarrow> Certificate option \<Rightarrow> FileSource \<Rightarrow> source_error + CertStatus option" where
  "take_snapshot now n i s =
     snapshot_answer (crlUsableAt (fs_thisUpdate s) (fs_nextUpdate s) (fs_expiryGrace s) now)
       (fs_revoked s (big_String n)) (fs_nextUpdate s) (fs_issuerCert s) i"

text \<open>Run one after the other, the actions are the operations of theory \<open>FileSource\<close>.\<close>

lemma GetStatus_actions:
  "FileSource_GetStatus e n i s =
     (case ce_ctxErr e of
        Some c \<Rightarrow> (Inl (CtxErr c), s, [])
      | None \<Rightarrow> (if fs_loaded s then take_snapshot (ce_now e) n i s else Inl ErrSourceUnhealthy, s, []))"
  by (simp add: FileSource_GetStatus_def take_snapshot_def Let_def split: option.splits)

lemma parseCRLBytes_actions:
  "crl_of x (fs_issuerCert s) b = Some rl \<Longrightarrow>
     parseCRLBytes x b s = Inr (store_loaded True (swap_generation rl s))"
  by (subst parseCRLBytes_crl_of) (simp add: swap_generation_def store_loaded_def)

lemma markUnhealthy_actions: "fst (markUnhealthy err s) = store_loaded False s"
  by (simp add: markUnhealthy_def store_loaded_def)

section \<open>Steps\<close>

datatype reader = RIdle | RChecked int "Certificate option"

datatype loader =
    LIdle
  | LVerified RevocationList bytes
  | LSwapped bytes
  | LStored bytes

text \<open>An answer with the source as it was when the snapshot was taken.\<close>

record lookup_record =
  lk_serial :: int
  lk_issuer :: "Certificate option"
  lk_now :: Time
  lk_result :: "source_error + CertStatus option"
  lk_source :: FileSource

record fsys =
  z_source :: FileSource
  z_readers :: "nat \<Rightarrow> reader"
  z_loader :: loader
  z_lookups :: "lookup_record list"

definition looked_up_at :: "nat \<Rightarrow> int \<Rightarrow> Certificate option \<Rightarrow> Time \<Rightarrow> source_error + CertStatus option \<Rightarrow> fsys \<Rightarrow> fsys" where
  "looked_up_at j n i now res z =
     z\<lparr>z_readers := (z_readers z)(j := RIdle),
       z_lookups := \<lparr>lk_serial = n, lk_issuer = i, lk_now = now, lk_result = res, lk_source = z_source z\<rparr> # z_lookups z\<rparr>"

inductive fstep :: "crl_lib \<Rightarrow> fsys \<Rightarrow> fsys \<Rightarrow> bool" for x where
  check_ok: "z_readers z j = RIdle \<Longrightarrow> fs_loaded (z_source z) \<Longrightarrow>
    fstep x z (z\<lparr>z_readers := (z_readers z)(j := RChecked n i)\<rparr>)"
| check_refused: "z_readers z j = RIdle \<Longrightarrow> \<not> fs_loaded (z_source z) \<Longrightarrow>
    fstep x z (looked_up_at j n i now (Inl ErrSourceUnhealthy) z)"
| snapshot: "z_readers z j = RChecked n i \<Longrightarrow>
    fstep x z (looked_up_at j n i now (take_snapshot now n i (z_source z)) z)"
| load_fails: "z_loader z = LIdle \<Longrightarrow> fstep x z (z\<lparr>z_source := store_loaded False (z_source z)\<rparr>)"
| load_verifies: "z_loader z = LIdle \<Longrightarrow> crl_of x (fs_issuerCert (z_source z)) b = Some rl \<Longrightarrow>
    fstep x z (z\<lparr>z_loader := LVerified rl b\<rparr>)"
| load_swaps: "z_loader z = LVerified rl b \<Longrightarrow>
    fstep x z (z\<lparr>z_source := swap_generation rl (z_source z), z_loader := LSwapped b\<rparr>)"
| load_stores: "z_loader z = LSwapped b \<Longrightarrow>
    fstep x z (z\<lparr>z_source := store_loaded True (z_source z), z_loader := LStored b\<rparr>)"
| load_hashes: "z_loader z = LStored b \<Longrightarrow>
    fstep x z (z\<lparr>z_source := (if fs_isURL (z_source z) then z_source z else storeHash (Sum256 x b) (z_source z)),
                z_loader := LIdle\<rparr>)"

inductive freachable :: "crl_lib \<Rightarrow> FileSource \<Rightarrow> fsys \<Rightarrow> bool" for x s0 where
  fstart: "freachable x s0 \<lparr>z_source = s0, z_readers = (\<lambda>_. RIdle), z_loader = LIdle, z_lookups = []\<rparr>"
| fmove: "freachable x s0 z \<Longrightarrow> fstep x z z' \<Longrightarrow> freachable x s0 z'"

section \<open>Invariant\<close>

definition holds_verified :: "crl_lib \<Rightarrow> Certificate \<Rightarrow> Duration \<Rightarrow> FileSource \<Rightarrow> bool" where
  "holds_verified x c g s \<longleftrightarrow>
     fs_issuerCert s = c \<and> fs_expiryGrace s = g \<and> (\<exists>b rl. crl_of x c b = Some rl \<and> installed rl s)"

definition lookup_ok :: "crl_lib \<Rightarrow> Certificate \<Rightarrow> Duration \<Rightarrow> lookup_record \<Rightarrow> bool" where
  "lookup_ok x c g a \<longleftrightarrow>
     (case lk_result a of
        Inl err \<Rightarrow> err \<in> {ErrSourceUnhealthy, IssuerRequired, IssuerMismatch}
      | Inr None \<Rightarrow> False
      | Inr (Some cs) \<Rightarrow>
          (\<exists>b rl. crl_of x c b = Some rl \<and> installed rl (lk_source a) \<and>
             crlUsableAt (rl_ThisUpdate rl) (rl_NextUpdate rl) g (lk_now a) \<and>
             cs = crl_status rl (lk_serial a) \<and> map_option RawSubject (lk_issuer a) = Some (RawSubject c)))"

definition fsys_inv :: "crl_lib \<Rightarrow> Certificate \<Rightarrow> Duration \<Rightarrow> fsys \<Rightarrow> bool" where
  "fsys_inv x c g z \<longleftrightarrow>
     holds_verified x c g (z_source z) \<and> list_all (lookup_ok x c g) (z_lookups z) \<and>
     (case z_loader z of LVerified rl b \<Rightarrow> crl_of x c b = Some rl | _ \<Rightarrow> True)"

lemma holds_verified_loaded: "holds_verified x c g (store_loaded b s) = holds_verified x c g s"
  by (simp add: holds_verified_def store_loaded_def installed_def)

lemma holds_verified_hash: "holds_verified x c g (storeHash h s) = holds_verified x c g s"
  by (simp add: holds_verified_def storeHash_def installed_def)

lemma holds_verified_swap:
  "holds_verified x c g s \<Longrightarrow> crl_of x c b = Some rl \<Longrightarrow> holds_verified x c g (swap_generation rl s)"
  by (auto simp: holds_verified_def swap_generation_def installed_def)

lemma take_snapshot_ok:
  assumes "holds_verified x c g s"
  shows "lookup_ok x c g \<lparr>lk_serial = n, lk_issuer = i, lk_now = now, lk_result = take_snapshot now n i s, lk_source = s\<rparr>"
proof -
  from assms obtain b rl where rl: "crl_of x c b = Some rl" "installed rl s" and c: "fs_issuerCert s = c" "fs_expiryGrace s = g"
    by (auto simp: holds_verified_def)
  let ?u = "crlUsableAt (rl_ThisUpdate rl) (rl_NextUpdate rl) g now"
  have u: "crlUsableAt (fs_thisUpdate s) (fs_nextUpdate s) (fs_expiryGrace s) now = ?u"
    using rl(2) c by (simp add: installed_def)
  show ?thesis
  proof (cases i)
    case None
    then show ?thesis by (simp add: lookup_ok_def take_snapshot_def snapshot_answer_def)
  next
    case (Some ic)
    with snapshot_answer_status [OF rl(2), of n c ic] rl u c show ?thesis
      by (cases ?u) (auto simp: lookup_ok_def take_snapshot_def snapshot_answer_def)
  qed
qed

lemma fsys_inv_step:
  assumes "fstep x z z'" and "fsys_inv x c g z"
  shows "fsys_inv x c g z'"
  using assms(1)
proof cases
  case (snapshot j n i now)
  with assms(2) take_snapshot_ok show ?thesis by (auto simp: fsys_inv_def looked_up_at_def)
next
  case (check_refused j n i now)
  with assms(2) show ?thesis by (simp add: fsys_inv_def looked_up_at_def lookup_ok_def)
next
  case (load_swaps rl b)
  with assms(2) holds_verified_swap show ?thesis by (auto simp: fsys_inv_def)
qed (use assms(2) in \<open>auto simp: fsys_inv_def holds_verified_loaded holds_verified_hash, auto simp: holds_verified_def\<close>)

lemma freachable_inv:
  assumes "freachable x s0 z" and "fs_inv x s0" and "fs_loaded s0"
  shows "fsys_inv x (fs_issuerCert s0) (fs_expiryGrace s0) z"
  using assms(1)
proof induction
  case fstart
  with assms(2,3) show ?case by (auto simp: fsys_inv_def holds_verified_def fs_inv_def serves_def)
next
  case (fmove z z')
  from fsys_inv_step [OF fmove.hyps(2) fmove.IH] show ?case .
qed

section \<open>Property\<close>

text \<open>
  C9: however lookups and reloads interleave on a source that \<open>NewFileSource\<close> built, every status a
  lookup returns is what one single verified CRL says about the requested serial: the one installed
  when the lookup took its snapshot, inside its validity window at that instant, and for the
  configured issuer.  Lookups otherwise fail with one of three errors.
\<close>
theorem concurrent_lookup_one_generation:
  assumes "NewFileSource x io now path ivl (Some c) opts = Inr (s0, l0)" and "freachable x s0 z"
  shows "list_all (lookup_ok x c (fs_expiryGrace s0)) (z_lookups z)"
proof -
  from NewFileSource_inv [OF assms(1)] have "fs_inv x s0" "fs_loaded s0" "fs_issuerCert s0 = c" by auto
  with freachable_inv [OF assms(2)] show ?thesis by (auto simp: fsys_inv_def)
qed
section \<open>Witness\<close>

text \<open>
  A lookup for serial 5 passes the check while the first CRL (which revokes it) is installed; a reload
  swaps in the second before the snapshot, and the answer is the second's.
\<close>
theorem concurrent_lookup_one_generation_witness:
  "\<exists>s0 l0 z. NewFileSource ex_lib (ex_io [1]) Hour ''ca.crl'' Minute (Some ex_issuer) [] = Inr (s0, l0) \<and>
     freachable ex_lib s0 z \<and> map lk_result (z_lookups z) = [Inr (Some (crl_status ex_crl2 5))] \<and>
     list_all (lookup_ok ex_lib ex_issuer (fs_expiryGrace s0)) (z_lookups z)"
proof -
  let ?new = "NewFileSource ex_lib (ex_io [1]) Hour ''ca.crl'' Minute (Some ex_issuer) []"
  obtain s0 l0 where n: "?new = Inr (s0, l0)" and s0: "fs_issuerCert s0 = ex_issuer" "fs_loaded s0" "fs_expiryGrace s0 = 0"
    by (simp add: NewFileSource_def loadCRL_def loadFromDisk_def readCRLFile_def parseCRLBytes_def
        verifyCRLForIssuer_def checkExpiry_def crlValiditySnapshot_def window_simps storeHash_def ex_defs)
  let ?z0 = "\<lparr>z_source = s0, z_readers = (\<lambda>_. RIdle), z_loader = LIdle, z_lookups = []\<rparr>"
  let ?z1 = "?z0\<lparr>z_readers := (\<lambda>_. RIdle)(0 := RChecked 5 (Some ex_issuer))\<rparr>"
  let ?z2 = "?z1\<lparr>z_loader := LVerified ex_crl2 [2]\<rparr>"
  let ?z3 = "?z2\<lparr>z_source := swap_generation ex_crl2 s0, z_loader := LSwapped [2]\<rparr>"
  let ?z4 = "looked_up_at 0 5 (Some ex_issuer) (3 * Hour) (take_snapshot (3 * Hour) 5 (Some ex_issuer) (z_source ?z3)) ?z3"
  have 1: "fstep ex_lib ?z0 ?z1" using check_ok [of ?z0 0 ex_lib 5 "Some ex_issuer"] s0 by simp
  have 2: "fstep ex_lib ?z1 ?z2" using load_verifies [of ?z1 ex_lib "[2]" ex_crl2] s0 ex_crl_of by simp
  have 3: "fstep ex_lib ?z2 ?z3" using load_swaps [of ?z2 ex_crl2 "[2]"] by simp
  have 4: "fstep ex_lib ?z3 ?z4" by (rule snapshot) simp
  have r: "freachable ex_lib s0 ?z4" by (rule fmove [OF fmove [OF fmove [OF fmove [OF fstart 1] 2] 3] 4])
  have "installed ex_crl2 (swap_generation ex_crl2 s0)" by (simp add: installed_def swap_generation_def)
  from snapshot_answer_status [OF this, of 5 ex_issuer ex_issuer] s0
  have res: "map lk_result (z_lookups ?z4) = [Inr (Some (crl_status ex_crl2 5))]"
    by (simp add: looked_up_at_def take_snapshot_def swap_generation_def window_simps ex_crl2_def)
  show ?thesis
    by (rule exI [of _ s0], rule exI [of _ l0], rule exI [of _ ?z4])
      (intro conjI n r res concurrent_lookup_one_generation [OF n r])
qed

end
