(* ===== verification/HTTPSourceConc.thy ===== *)
theory HTTPSourceConc
  imports HTTPSource
begin

text \<open>
  The HTTP source under concurrent use.  A lookup touches the shared state (the atomic \<open>healthy\<close> flag and
  the \<open>sync.Map\<close> of answers) in single atomic actions: it reads the flag, loads a cache entry, possibly
  deletes an expired one, asks the CA, stores the flag, stores the answer.  The actions of any number of
  lookups interleave freely; what the network and the clock do in one lookup is its \<open>http_env\<close>.
\<close>

section \<open>States and steps\<close>

datatype hstate =
    HIdle
  | HLoading int http_env
  | HStale int http_env
  | HFetching int http_env
  | HFailed int http_env source_error
  | HFetched int http_env CertStatus
  | HStoring int http_env CertStatus

record answer_put =
  pt_serial :: int
  pt_env :: http_env
  pt_status :: CertStatus

record http_answer =
  ha_serial :: int
  ha_env :: http_env
  ha_result :: "source_error + CertStatus"

record hsys =
  u_source :: HTTPSource
  u_lookups :: "nat \<Rightarrow> hstate"
  u_puts :: "answer_put list"
  u_answers :: "http_answer list"

abbreviation h_goto :: "nat \<Rightarrow> hstate \<Rightarrow> hsys \<Rightarrow> hsys" where
  "h_goto j h v \<equiv> v\<lparr>u_lookups := (u_lookups v)(j := h)\<rparr>"

definition h_answer :: "nat \<Rightarrow> int \<Rightarrow> http_env \<Rightarrow> source_error + CertStatus \<Rightarrow> hsys \<Rightarrow> hsys" where
  "h_answer j n e res v =
     v\<lparr>u_lookups := (u_lookups v)(j := HIdle),
       u_answers := \<lparr>ha_serial = n, ha_env = e, ha_result = res\<rparr> # u_answers v\<rparr>"

definition h_put :: "int \<Rightarrow> http_env \<Rightarrow> CertStatus \<Rightarrow> hsys \<Rightarrow> hsys" where
  "h_put n e cs v =
     v\<lparr>u_source := (u_source v)\<lparr>hs_cache :=
           http_cache_store (hs_cacheTTL (u_source v)) (hx_storeNow e) (big_String n) cs (hs_cache (u_source v))\<rparr>,
       u_puts := \<lparr>pt_serial = n, pt_env = e, pt_status = cs\<rparr> # u_puts v\<rparr>"

abbreviation h_entry :: "hsys \<Rightarrow> int \<Rightarrow> httpCacheEntry option" where
  "h_entry v n \<equiv> map_of (hs_cache (u_source v)) (big_String n)"

inductive hstep :: "hsys \<Rightarrow> hsys \<Rightarrow> bool" where
  ctx_dead: "u_lookups v j = HIdle \<Longrightarrow> ce_ctxErr e = Some c \<Longrightarrow> hstep v (h_answer j n e (Inl (CtxErr c)) v)"
| read_healthy: "u_lookups v j = HIdle \<Longrightarrow> ce_ctxErr e = None \<Longrightarrow> hs_healthy (u_source v) \<Longrightarrow>
    hstep v (h_goto j (HLoading n e) v)"
| read_unhealthy: "u_lookups v j = HIdle \<Longrightarrow> ce_ctxErr e = None \<Longrightarrow> \<not> hs_healthy (u_source v) \<Longrightarrow>
    hstep v (h_goto j (HFetching n e) v)"
| load_live: "u_lookups v j = HLoading n e \<Longrightarrow> h_entry v n = Some en \<Longrightarrow> Before (ce_now e) (hc_expiresAt en) \<Longrightarrow>
    hstep v (h_answer j n e (Inr (hc_status en)) v)"
| load_expired: "u_lookups v j = HLoading n e \<Longrightarrow> h_entry v n = Some en \<Longrightarrow> \<not> Before (ce_now e) (hc_expiresAt en) \<Longrightarrow>
    hstep v (h_goto j (HStale n e) v)"
| load_absent: "u_lookups v j = HLoading n e \<Longrightarrow> h_entry v n = None \<Longrightarrow> hstep v (h_goto j (HFetching n e) v)"
| delete_entry: "u_lookups v j = HStale n e \<Longrightarrow>
    hstep v (h_goto j (HFetching n e)
      (v\<lparr>u_source := (u_source v)\<lparr>hs_cache := AList.delete (big_String n) (hs_cache (u_source v))\<rparr>\<rparr>))"
| fetch_fails: "u_lookups v j = HFetching n e \<Longrightarrow>
    fetchWithRetry e (u_source v) (lookup_url (u_source v) n) = (Inl err, ms, ts) \<Longrightarrow> hstep v (h_goto j (HFailed n e err) v)"
| fetch_answers: "u_lookups v j = HFetching n e \<Longrightarrow>
    fetchWithRetry e (u_source v) (lookup_url (u_source v) n) = (Inr cs, ms, ts) \<Longrightarrow> hstep v (h_goto j (HFetched n e cs) v)"
| demote: "u_lookups v j = HFailed n e err \<Longrightarrow>
    hstep v (h_answer j n e (Inl err) (v\<lparr>u_source := (u_source v)\<lparr>hs_healthy := False\<rparr>\<rparr>))"
| promote: "u_lookups v j = HFetched n e cs \<Longrightarrow>
    hstep v (h_goto j (HStoring n e cs) (v\<lparr>u_source := (u_source v)\<lparr>hs_healthy := True\<rparr>\<rparr>))"
| store_answer: "u_lookups v j = HStoring n e cs \<Longrightarrow> hstep v (h_answer j n e (Inr cs) (h_put n e cs v))"

inductive hreachable :: "HTTPSource \<Rightarrow> hsys \<Rightarrow> bool" for s0 where
  hstart: "hreachable s0 \<lparr>u_source = s0, u_lookups = (\<lambda>_. HIdle), u_puts = [], u_answers = []\<rparr>"
| hmove: "hreachable s0 v \<Longrightarrow> hstep v v' \<Longrightarrow> hreachable s0 v'"

section \<open>Invariant\<close>

text \<open>What a lookup that got an answer from the CA holds, and what is cached.\<close>

definition h_holds :: "HTTPSource \<Rightarrow> hstate \<Rightarrow> bool" where
  "h_holds s0 h \<longleftrightarrow>
     (case h of HFetched n e cs \<Rightarrow> asked e s0 n cs | HStoring n e cs \<Rightarrow> asked e s0 n cs | _ \<Rightarrow> True)"

definition put_for :: "HTTPSource \<Rightarrow> answer_put list \<Rightarrow> string \<Rightarrow> CertStatus \<Rightarrow> Time \<Rightarrow> bool" where
  "put_for s0 puts k cs x \<longleftrightarrow>
     list_ex (\<lambda>p. big_String (pt_serial p) = k \<and> pt_status p = cs \<and> asked (pt_env p) s0 (pt_serial p) cs \<and>
                  x = hx_storeNow (pt_env p) + hs_cacheTTL s0) puts"

definition h_answer_ok :: "HTTPSource \<Rightarrow> answer_put list \<Rightarrow> http_answer \<Rightarrow> bool" where
  "h_answer_ok s0 puts a \<longleftrightarrow>
     (case ha_result a of
        Inl _ \<Rightarrow> True
      | Inr cs \<Rightarrow> asked (ha_env a) s0 (ha_serial a) cs \<or>
          (\<exists>x. put_for s0 puts (big_String (ha_serial a)) cs x \<and> ce_now (ha_env a) < x))"

definition hsys_inv :: "HTTPSource \<Rightarrow> hsys \<Rightarrow> bool" where
  "hsys_inv s0 v \<longleftrightarrow>
     same_http_config s0 (u_source v) \<and> (\<forall>j. h_holds s0 (u_lookups v j)) \<and>
     (\<forall>k en. map_of (hs_cache (u_source v)) k = Some en \<longrightarrow> put_for s0 (u_puts v) k (hc_status en) (hc_expiresAt en)) \<and>
     list_all (h_answer_ok s0 (u_puts v)) (u_answers v)"

lemma put_for_Cons: "put_for s0 puts k cs x \<Longrightarrow> put_for s0 (p # puts) k cs x"
  by (simp add: put_for_def)

lemma h_answer_ok_Cons: "h_answer_ok s0 puts a \<Longrightarrow> h_answer_ok s0 (p # puts) a"
  by (auto simp: h_answer_ok_def dest: put_for_Cons split: sum.splits)

lemma hsys_invD:
  assumes "hsys_inv s0 v"
  shows "same_http_config s0 (u_source v)" and "h_holds s0 (u_lookups v j)"
    and "map_of (hs_cache (u_source v)) k = Some en \<Longrightarrow> put_for s0 (u_puts v) k (hc_status en) (hc_expiresAt en)"
    and "list_all (h_answer_ok s0 (u_puts v)) (u_answers v)"
  using assms by (auto simp: hsys_inv_def)

lemma hsys_inv_goto:
  assumes "hsys_inv s0 v" and "h_holds s0 h"
  shows "hsys_inv s0 (h_goto j h v)"
  using assms by (simp add: hsys_inv_def)

lemma hsys_inv_answer:
  assumes "hsys_inv s0 v" and "h_answer_ok s0 (u_puts v) \<lparr>ha_serial = n, ha_env = e, ha_result = res\<rparr>"
  shows "hsys_inv s0 (h_answer j n e res v)"
  using assms by (simp add: hsys_inv_def h_answer_def h_holds_def)

lemma hsys_inv_source:
  assumes "hsys_inv s0 v" and "same_http_config (u_source v) s"
    and "\<And>k en. map_of (hs_cache s) k = Some en \<Longrightarrow> map_of (hs_cache (u_source v)) k = Some en"
  shows "hsys_inv s0 (v\<lparr>u_source := s\<rparr>)"
  using assms by (auto simp: hsys_inv_def same_http_config_def)

lemma hsys_inv_put:
  assumes inv: "hsys_inv s0 v" and asked: "asked e s0 n cs"
  shows "hsys_inv s0 (h_put n e cs v)"
proof -
  let ?c = "http_cache_store (hs_cacheTTL (u_source v)) (hx_storeNow e) (big_String n) cs (hs_cache (u_source v))"
  let ?p = "\<lparr>pt_serial = n, pt_env = e, pt_status = cs\<rparr>"
  have ttl: "hs_cacheTTL (u_source v) = hs_cacheTTL s0" using hsys_invD(1) [OF inv] by (simp add: same_http_config_def)
  have "put_for s0 (?p # u_puts v) k (hc_status en) (hc_expiresAt en)" if "map_of ?c k = Some en" for k en
  proof (cases "map_of (hs_cache (u_source v)) k = Some en")
    case True
    then show ?thesis by (intro put_for_Cons hsys_invD(3) [OF inv])
  next
    case False
    with that asked ttl show ?thesis
      by (cases "k = big_String n") (auto simp: http_cache_store_def put_for_def Time_Add_def split: if_splits)
  qed
  moreover have "list_all (h_answer_ok s0 (?p # u_puts v)) (u_answers v)"
    using hsys_invD(4) [OF inv] by (auto simp: list_all_iff intro: h_answer_ok_Cons)
  ultimately show ?thesis
    using hsys_invD(1,2) [OF inv] by (auto simp: hsys_inv_def h_put_def same_http_config_def)
qed

lemma map_of_delete_sub: "map_of (AList.delete k c) k' = Some w \<Longrightarrow> map_of c k' = Some w"
  by (cases "k' = k") (auto simp: delete_conv')

lemma hsys_inv_step:
  assumes "hstep v v'" and inv: "hsys_inv s0 v"
  shows "hsys_inv s0 v'"
  using assms(1)
proof cases
  case (load_live j n e en)
  with hsys_invD(3) [OF inv load_live(3)] show ?thesis
    by (auto intro!: hsys_inv_answer [OF inv] simp: h_answer_ok_def Before_def)
next
  case (delete_entry j n e)
  have "hsys_inv s0 (v\<lparr>u_source := (u_source v)\<lparr>hs_cache := AList.delete (big_String n) (hs_cache (u_source v))\<rparr>\<rparr>)"
    by (rule hsys_inv_source [OF inv]) (auto simp: same_http_config_def dest: map_of_delete_sub)
  from hsys_inv_goto [OF this, of "HFetching n e" j] delete_entry show ?thesis by (simp add: h_holds_def)
next
  case (fetch_answers j n e cs ms ts)
  from fetchWithRetry_asked [OF fetch_answers(3)] asked_config [OF hsys_invD(1) [OF inv]] have "asked e s0 n cs" by simp
  with fetch_answers show ?thesis by (auto intro!: hsys_inv_goto [OF inv] simp: h_holds_def)
next
  case (demote j n e err)
  have "hsys_inv s0 (v\<lparr>u_source := (u_source v)\<lparr>hs_healthy := False\<rparr>\<rparr>)"
    by (rule hsys_inv_source [OF inv]) (auto simp: same_http_config_def)
  with demote show ?thesis by (auto intro!: hsys_inv_answer simp: h_answer_ok_def)
next
  case (promote j n e cs)
  have "hsys_inv s0 (v\<lparr>u_source := (u_source v)\<lparr>hs_healthy := True\<rparr>\<rparr>)"
    by (rule hsys_inv_source [OF inv]) (auto simp: same_http_config_def)
  moreover from hsys_invD(2) [OF inv, of j] promote have "asked e s0 n cs" by (simp add: h_holds_def)
  ultimately show ?thesis using promote hsys_inv_goto [of s0 _ "HStoring n e cs" j] by (fastforce simp: h_holds_def)
next
  case (store_answer j n e cs)
  from hsys_invD(2) [OF inv, of j] store_answer have "asked e s0 n cs" by (simp add: h_holds_def)
  with hsys_inv_put [OF inv this] store_answer show ?thesis by (auto intro!: hsys_inv_answer simp: h_answer_ok_def)
qed (auto intro!: hsys_inv_goto [OF inv] hsys_inv_answer [OF inv] simp: h_holds_def h_answer_ok_def)

lemma hreachable_inv:
  assumes "hreachable s0 v" and "hs_cache s0 = []"
  shows "hsys_inv s0 v"
  using assms(1)
proof induction
  case hstart
  with assms(2) show ?case by (simp add: hsys_inv_def same_http_config_def h_holds_def)
next
  case (hmove v v')
  from hsys_inv_step [OF hmove.hyps(2) hmove.IH] show ?case .
qed


section \<open>The sequential lookup is one of the runs\<close>

text \<open>
  A lookup that is not interrupted ends in the state and with the answer of \<open>HTTPSource_GetStatus\<close>, so the
  interleaved runs extend the sequential ones.
\<close>

abbreviation hsteps :: "hsys \<Rightarrow> hsys \<Rightarrow> bool" where
  "hsteps \<equiv> hstep\<^sup>*\<^sup>*"

lemma hstep_two: "hstep v v' \<Longrightarrow> hstep v' v'' \<Longrightarrow> hsteps v v''"
  by (rule converse_rtranclp_into_rtranclp) auto

lemma fetching_run:
  assumes "u_lookups v j = HFetching n e" and "fetchWithRetry e (u_source v) (lookup_url (u_source v) n) = (res, ms, ts)"
  shows "\<exists>v'. hsteps v v' \<and> u_lookups v' j = HIdle \<and>
    u_source v' = (case res of
        Inl _ \<Rightarrow> (u_source v)\<lparr>hs_healthy := False\<rparr>
      | Inr cs \<Rightarrow> (u_source v)\<lparr>hs_healthy := True, hs_cache :=
          http_cache_store (hs_cacheTTL (u_source v)) (hx_storeNow e) (big_String n) cs (hs_cache (u_source v))\<rparr>) \<and>
    u_answers v' = \<lparr>ha_serial = n, ha_env = e, ha_result = res\<rparr> # u_answers v"
proof (cases res)
  case (Inl err)
  let ?v1 = "h_goto j (HFailed n e err) v"
  have 1: "hstep v ?v1" using fetch_fails [of v j n e err] assms Inl by simp
  have 2: "hstep ?v1 (h_answer j n e (Inl err) (?v1\<lparr>u_source := (u_source ?v1)\<lparr>hs_healthy := False\<rparr>\<rparr>))"
    by (rule demote) simp
  note run = hstep_two [OF 1 2]
  show ?thesis by (rule exI, rule conjI, rule run) (use Inl in \<open>simp add: h_answer_def\<close>)
next
  case (Inr cs)
  let ?v1 = "h_goto j (HFetched n e cs) v"
  let ?v2 = "h_goto j (HStoring n e cs) (?v1\<lparr>u_source := (u_source ?v1)\<lparr>hs_healthy := True\<rparr>\<rparr>)"
  have 1: "hstep v ?v1" using fetch_answers [of v j n e cs] assms Inr by simp
  have 2: "hstep ?v1 ?v2" by (rule promote) simp
  have 3: "hstep ?v2 (h_answer j n e (Inr cs) (h_put n e cs ?v2))" by (rule store_answer) simp
  note run = converse_rtranclp_into_rtranclp [of hstep, OF 1 hstep_two [OF 2 3]]
  show ?thesis by (rule exI, rule conjI, rule run) (use Inr in \<open>simp add: h_answer_def h_put_def\<close>)
qed

text \<open>A lookup that finds no live entry, or does not look because the source is unhealthy, asks the CA.\<close>

lemma GetStatus_miss:
  assumes "ce_ctxErr e = None" and "\<And>cs. \<not> live_answer e s n cs"
    and "fetchWithRetry e (s\<lparr>hs_cache := c1\<rparr>) (lookup_url (s\<lparr>hs_cache := c1\<rparr>) n) = (res, mf, ts)"
    and "c1 = (if hs_healthy s then snd (http_cache_check (ce_now e) (big_String n) (hs_cache s)) else hs_cache s)"
  shows "\<exists>ms. HTTPSource_GetStatus e n i s =
    (map_sum id Some res,
     case res of
       Inl _ \<Rightarrow> s\<lparr>hs_healthy := False, hs_cache := c1\<rparr>
     | Inr cs \<Rightarrow> s\<lparr>hs_healthy := True,
         hs_cache := http_cache_store (hs_cacheTTL s) (hx_storeNow e) (big_String n) cs c1\<rparr>, ms)"
  using assms
  by (cases "hs_healthy s"; cases "fst (http_cache_check (ce_now e) (big_String n) (hs_cache s))"; cases res)
    (auto simp: HTTPSource_GetStatus_def Let_def split: prod.splits)

lemma idle_run:
  assumes idle: "u_lookups v j = HIdle" and ctx: "ce_ctxErr e = None" and miss: "\<And>cs. \<not> live_answer e (u_source v) n cs"
  shows "\<exists>v'. hsteps v v' \<and> u_lookups v' j = HFetching n e \<and> u_answers v' = u_answers v \<and>
    u_source v' = (u_source v)\<lparr>hs_cache :=
      (if hs_healthy (u_source v) then snd (http_cache_check (ce_now e) (big_String n) (hs_cache (u_source v)))
       else hs_cache (u_source v))\<rparr>"
proof (cases "hs_healthy (u_source v)")
  case False
  note run = r_into_rtranclp [of hstep, OF read_unhealthy [OF idle ctx False, of n]]
  show ?thesis by (rule exI, rule conjI, rule run) (use False in simp)
next
  case True
  let ?v1 = "h_goto j (HLoading n e) v"
  have 1: "hstep v ?v1" by (rule read_healthy [OF idle ctx True])
  show ?thesis
  proof (cases "h_entry v n")
    case None
    have 2: "hstep ?v1 (h_goto j (HFetching n e) ?v1)" using None by (intro load_absent) simp_all
    note run = hstep_two [OF 1 2]
    show ?thesis by (rule exI, rule conjI, rule run) (use None True in \<open>simp add: http_cache_check_def\<close>)
  next
    case (Some en)
    with True miss [of "hc_status en"] have old: "\<not> Before (ce_now e) (hc_expiresAt en)"
      by (auto simp: http_cache_check_def)
    let ?v2 = "h_goto j (HStale n e) ?v1"
    have 2: "hstep ?v1 ?v2" using Some old by (intro load_expired) simp_all
    have 3: "hstep ?v2 (h_goto j (HFetching n e)
        (?v2\<lparr>u_source := (u_source ?v2)\<lparr>hs_cache := AList.delete (big_String n) (hs_cache (u_source ?v2))\<rparr>\<rparr>))"
      by (rule delete_entry) simp
    note run = converse_rtranclp_into_rtranclp [of hstep, OF 1 hstep_two [OF 2 3]]
    show ?thesis by (rule exI, rule conjI, rule run) (use Some old True in \<open>simp add: http_cache_check_def\<close>)
  qed
qed

lemma lookup_run:
  assumes idle: "u_lookups v j = HIdle" and eq: "HTTPSource_GetStatus e n i (u_source v) = (r, s', ms)"
  shows "\<exists>v'. hsteps v v' \<and> u_lookups v' j = HIdle \<and> u_source v' = s' \<and>
    u_answers v' = \<lparr>ha_serial = n, ha_env = e, ha_result = map_sum id the r\<rparr> # u_answers v"
proof (cases "ce_ctxErr e")
  case (Some c)
  with ctx_dead [OF idle Some, of n] eq show ?thesis
    by (intro exI [of _ "h_answer j n e (Inl (CtxErr c)) v"]) (auto simp: HTTPSource_GetStatus_def h_answer_def)
next
  case None
  show ?thesis
  proof (cases "\<exists>cs. live_answer e (u_source v) n cs")
    case True
    then obtain cs where l: "live_answer e (u_source v) n cs" by blast
    then obtain en where en: "h_entry v n = Some en" "Before (ce_now e) (hc_expiresAt en)" "cs = hc_status en"
      by (auto simp: http_cache_check_def split: option.splits if_splits)
    let ?v1 = "h_goto j (HLoading n e) v"
    have 1: "hstep v ?v1" by (rule read_healthy [OF idle None]) (use l in simp)
    have 2: "hstep ?v1 (h_answer j n e (Inr (hc_status en)) ?v1)" using en by (intro load_live) simp_all
    note run = hstep_two [OF 1 2]
    from en l None eq have "r = Inr (Some (hc_status en))" "s' = u_source v"
      by (auto simp: HTTPSource_GetStatus_def http_cache_check_def)
    then show ?thesis by - (rule exI, rule conjI, rule run, simp add: h_answer_def)
  next
    case False
    let ?c1 = "if hs_healthy (u_source v) then snd (http_cache_check (ce_now e) (big_String n) (hs_cache (u_source v)))
       else hs_cache (u_source v)"
    from False have miss: "\<And>cs. \<not> live_answer e (u_source v) n cs" by blast
    from idle_run [OF idle None miss]
    obtain v1 where v1: "hsteps v v1" "u_lookups v1 j = HFetching n e" "u_answers v1 = u_answers v"
      "u_source v1 = (u_source v)\<lparr>hs_cache := ?c1\<rparr>" by blast
    obtain res mf ts where f: "fetchWithRetry e (u_source v1) (lookup_url (u_source v1) n) = (res, mf, ts)"
      by (metis prod_cases3)
    from fetching_run [OF v1(2) f] obtain v2 where v2: "hsteps v1 v2" "u_lookups v2 j = HIdle"
      "u_source v2 = (case res of
        Inl _ \<Rightarrow> (u_source v1)\<lparr>hs_healthy := False\<rparr>
      | Inr cs \<Rightarrow> (u_source v1)\<lparr>hs_healthy := True, hs_cache :=
          http_cache_store (hs_cacheTTL (u_source v1)) (hx_storeNow e) (big_String n) cs (hs_cache (u_source v1))\<rparr>)"
      "u_answers v2 = \<lparr>ha_serial = n, ha_env = e, ha_result = res\<rparr> # u_answers v1" by blast
    have "r = map_sum id Some res \<and> s' = u_source v2"
      using eq GetStatus_miss [OF None miss f [unfolded v1(4)] refl, of i] v2(3) v1(4) by (cases res) auto
    moreover from this have "map_sum id the r = res" by (cases res) simp_all
    ultimately show ?thesis using v1(1,3) v2 by (intro exI [of _ v2]) (auto intro: rtranclp_trans)
  qed
qed

section \<open>Property\<close>

text \<open>
  C16: however lookups interleave on a source that \<open>NewHTTPSource\<close> built, a status a lookup returns for a
  serial was stated by the CA for that very serial: in a conclusive reply to one of its own attempts,
  or in one to a lookup that stored it less than the configured cache TTL before.
\<close>
theorem concurrent_http_answers:
  assumes "NewHTTPSource rd hp base rootFile tmo m retries bo ttl = Inr s0" and "hreachable (SetObserver obs s0) v"
    and "a \<in> set (u_answers v)" and "ha_result a = Inr cs"
  shows "asked (ha_env a) s0 (ha_serial a) cs \<or>
    (\<exists>p \<in> set (u_puts v). pt_serial p = ha_serial a \<and> pt_status p = cs \<and> asked (pt_env p) s0 (pt_serial p) cs \<and>
       ce_now (ha_env a) < hx_storeNow (pt_env p) + ttl)"
proof -
  let ?s = "SetObserver obs s0"
  have s: "hs_cache ?s = []" "hs_cacheTTL ?s = ttl" and ask: "asked e ?s n c = asked e s0 n c" for e n c
    using NewHTTPSource_inv [OF assms(1)] by (simp_all add: SetObserver_def asked_def lookup_url_def)
  from hsys_invD(4) [OF hreachable_inv [OF assms(2) s(1)]] assms(3) have "h_answer_ok ?s (u_puts v) a"
    by (simp add: list_all_iff)
  with assms(4) show ?thesis
    by (auto simp: h_answer_ok_def put_for_def list_ex_iff ask s(2) big_String_inject)
qed


section \<open>Witness\<close>

text \<open>
  Two lookups for serial 5 start together, both before any answer is cached; the first asks the CA and
  stores the answer, and the second, which looks only then, is answered from the cache.
\<close>
theorem concurrent_http_answers_witness:
  "\<exists>v a p. hreachable ex_http v \<and> map ha_result (u_answers v) = [Inr (plain_status StatusGood), Inr (plain_status StatusGood)] \<and>
     u_answers v ! 0 = a \<and> u_puts v = [p] \<and>
     (asked (ha_env a) ex_http 5 (plain_status StatusGood) \<or>
      (pt_status p = plain_status StatusGood \<and> ce_now (ha_env a) < hx_storeNow (pt_env p) + Minute))"
proof -
  let ?g = "plain_status StatusGood"
  let ?e = ex_http_env
  let ?v0 = "\<lparr>u_source = ex_http, u_lookups = (\<lambda>_. HIdle), u_puts = [], u_answers = []\<rparr>"
  let ?v1 = "h_goto 0 (HLoading 5 ?e) ?v0"
  let ?v2 = "h_goto 1 (HLoading 5 ?e) ?v1"
  let ?v3 = "h_goto 0 (HFetching 5 ?e) ?v2"
  let ?v4 = "h_goto 0 (HFetched 5 ?e ?g) ?v3"
  let ?v5 = "h_goto 0 (HStoring 5 ?e ?g) (?v4\<lparr>u_source := (u_source ?v4)\<lparr>hs_healthy := True\<rparr>\<rparr>)"
  let ?v6 = "h_answer 0 5 ?e (Inr ?g) (h_put 5 ?e ?g ?v5)"
  let ?v7 = "h_answer 1 5 ?e (Inr ?g) ?v6"
  let ?en = "\<lparr>hc_status = ?g, hc_expiresAt = 800 + Minute\<rparr>"
  have 1: "hstep ?v0 ?v1" by (rule read_healthy) (simp_all add: ex_http_fields)
  have 2: "hstep ?v1 ?v2" by (rule read_healthy) (simp_all add: ex_http_fields)
  have 3: "hstep ?v2 ?v3" by (rule load_absent) (simp_all add: ex_http_fields)
  have 4: "hstep ?v3 ?v4" using ex_http_fetch by (intro fetch_answers) simp_all
  have 5: "hstep ?v4 ?v5" by (rule promote) simp
  have 6: "hstep ?v5 ?v6" by (rule store_answer) simp
  have "hstep ?v6 (h_answer 1 5 ?e (Inr (hc_status ?en)) ?v6)"
    by (rule load_live) (simp_all add: h_answer_def h_put_def http_cache_store_def ex_http_fields Time_Add_def Before_def)
  then have 7: "hstep ?v6 ?v7" by simp
  have r: "hreachable ex_http ?v7"
    by (rule hmove [OF hmove [OF hmove [OF hmove [OF hmove [OF hmove [OF hmove [OF hstart 1] 2] 3] 4] 5] 6] 7])
  have obs: "SetObserver False ex_http = ex_http" by (simp add: SetObserver_def ex_http_def)
  note ans = concurrent_http_answers [OF ex_http_new, of False, unfolded obs, OF r, of "u_answers ?v7 ! 0" ?g]
  show ?thesis
    using ans r by (intro exI [of _ ?v7]) (auto simp: h_answer_def h_put_def)
qed

end
