(* ===== verification/CacheInterleaving.thy ===== *)
theory CacheInterleaving
  imports ResponseCache
begin

text \<open>
  The response cache under concurrent use.  Each goroutine runs \<open>getAt\<close> in the critical sections the
  mutex of \<open>responder.go\<close> delimits: the instant is taken when the call starts, the entry is read under the read lock,
  and an expired entry leads to a second section under the write lock; any number of lookups and
  insertions of other goroutines may run in between.  \<open>setAt\<close> is one critical section.  Answers and
  insertions are recorded in order, newest first, as is the last value given to the gauge.
\<close>

section \<open>Steps\<close>

datatype getter =
    Idle
  | Begun string Time
  | Upgrading string Time

record insertion =
  i_key :: string
  i_data :: bytes
  i_at :: Time
  i_signed :: Time

record answer =
  a_key :: string
  a_now :: Time
  a_data :: "bytes option"

record sys =
  y_cache :: cache
  y_getters :: "nat \<Rightarrow> getter"
  y_inserted :: "insertion list"
  y_answers :: "answer list"
  y_gauge :: nat

fun gauge_after :: "metric_call list \<Rightarrow> nat \<Rightarrow> nat" where
  "gauge_after [] g = g"
| "gauge_after (CacheEntriesSet n # es) g = gauge_after es n"
| "gauge_after (_ # es) g = gauge_after es g"

definition answered :: "nat \<Rightarrow> string \<Rightarrow> Time \<Rightarrow> bytes option \<Rightarrow> sys \<Rightarrow> sys" where
  "answered i k now r y =
     y\<lparr>y_getters := (y_getters y)(i := Idle),
       y_answers := \<lparr>a_key = k, a_now = now, a_data = r\<rparr> # y_answers y\<rparr>"

inductive step :: "sys \<Rightarrow> sys \<Rightarrow> bool" where
  begin_get: "y_getters y i = Idle \<Longrightarrow> step y (y\<lparr>y_getters := (y_getters y)(i := Begun k now)\<rparr>)"
| read_absent: "y_getters y i = Begun k now \<Longrightarrow> getAt_read (y_cache y) k now = ReadAbsent \<Longrightarrow>
    step y (answered i k now None y)"
| read_live: "y_getters y i = Begun k now \<Longrightarrow> getAt_read (y_cache y) k now = ReadLive d \<Longrightarrow>
    step y (answered i k now (Some d) y)"
| read_expired: "y_getters y i = Begun k now \<Longrightarrow> getAt_read (y_cache y) k now = ReadExpired \<Longrightarrow>
    step y (y\<lparr>y_getters := (y_getters y)(i := Upgrading k now)\<rparr>)"
| upgrade: "y_getters y i = Upgrading k now \<Longrightarrow> getAt_upgrade (y_cache y) k now = (r, c', ev) \<Longrightarrow>
    step y (answered i k now r (y\<lparr>y_cache := c', y_gauge := gauge_after ev (y_gauge y)\<rparr>))"
| insert: "setAt pick (y_cache y) k d t nu = (c', ev) \<Longrightarrow>
    step y (y\<lparr>y_cache := c', y_gauge := gauge_after ev (y_gauge y),
              y_inserted := \<lparr>i_key = k, i_data = d, i_at = t, i_signed = nu\<rparr> # y_inserted y\<rparr>)"

inductive reachable :: "cache \<Rightarrow> sys \<Rightarrow> bool" for c0 where
  start: "reachable c0 \<lparr>y_cache = c0, y_getters = (\<lambda>_. Idle), y_inserted = [], y_answers = [], y_gauge = 0\<rparr>"
| move: "reachable c0 y \<Longrightarrow> step y y' \<Longrightarrow> reachable c0 y'"

inductive_cases step_E: "step y y'"

section \<open>Invariant\<close>

text \<open>The insertion a live answer goes back to: same key, same bytes, deadline after the lookup's instant.\<close>

definition backed :: "Duration \<Rightarrow> insertion list \<Rightarrow> string \<Rightarrow> bytes \<Rightarrow> Time \<Rightarrow> bool" where
  "backed ttl ins k d x \<longleftrightarrow>
     list_ex (\<lambda>i. i_key i = k \<and> i_data i = d \<and> i_at i < x \<and> x \<le> entry_expiry ttl (i_at i) (i_signed i)) ins"

definition sys_inv :: "cache \<Rightarrow> sys \<Rightarrow> bool" where
  "sys_inv c0 y \<longleftrightarrow>
     cache_inv (y_cache y) \<and> same_config c0 (y_cache y) \<and>
     (\<forall>k e. cached (y_cache y) k = Some e \<longrightarrow> backed (c_ttl c0) (y_inserted y) k (e_data e) (e_expiresAt e)) \<and>
     (\<forall>a \<in> set (y_answers y). \<forall>d. a_data a = Some d \<longrightarrow>
        (\<exists>x. a_now a < x \<and> backed (c_ttl c0) (y_inserted y) (a_key a) d x)) \<and>
     (c_entriesGauge c0 \<longrightarrow> y_gauge y = length (c_entries (y_cache y)))"

lemma backed_Cons: "backed ttl ins k d x \<Longrightarrow> backed ttl (i # ins) k d x"
  by (simp add: backed_def)

lemma same_config_refl: "same_config c c"
  by (simp add: same_config_def)

lemma same_config_trans: "same_config a b \<Longrightarrow> same_config b c \<Longrightarrow> same_config a c"
  by (simp add: same_config_def)

lemma gauge_after_update:
  "gauge_after (gauge_update c) g = (if c_entriesGauge c then length (c_entries c) else g)"
  by (simp add: gauge_update_def)

lemma sys_inv_getters: "sys_inv c0 (y\<lparr>y_getters := g\<rparr>) \<longleftrightarrow> sys_inv c0 y"
  by (simp add: sys_inv_def)

lemma sys_inv_answered:
  assumes "sys_inv c0 y" and "\<And>d. r = Some d \<Longrightarrow> \<exists>x. now < x \<and> backed (c_ttl c0) (y_inserted y) k d x"
  shows "sys_inv c0 (answered i k now r y)"
  using assms by (auto simp: sys_inv_def answered_def)

lemma getAt_read_live:
  "getAt_read c k now = ReadLive d \<Longrightarrow> \<exists>e. cached c k = Some e \<and> e_data e = d \<and> now < e_expiresAt e"
  by (auto simp: getAt_read_def Before_def split: if_splits option.splits)

lemma sys_inv_upgrade:
  assumes y: "sys_inv c0 y" and u: "getAt_upgrade (y_cache y) k now = (r, c', ev)"
  shows "sys_inv c0 (answered i k now r (y\<lparr>y_cache := c', y_gauge := gauge_after ev (y_gauge y)\<rparr>))"
proof (rule sys_inv_answered)
  from y have ci: "cache_inv (y_cache y)" by (simp add: sys_inv_def)
  note ui = getAt_upgrade_inv [OF ci u]
  show "sys_inv c0 (y\<lparr>y_cache := c', y_gauge := gauge_after ev (y_gauge y)\<rparr>)"
    using y ui(1) ui(3) same_config_trans [OF _ ui(2)] ui(6) ui(2)
    by (auto simp: sys_inv_def gauge_after_update same_config_def split: if_splits)
  show "\<exists>x. now < x \<and> backed (c_ttl c0) (y_inserted (y\<lparr>y_cache := c', y_gauge := gauge_after ev (y_gauge y)\<rparr>)) k d x"
    if "r = Some d" for d
    using that ui(5) y by (auto simp: sys_inv_def split: option.splits if_splits)
qed

lemma sys_inv_insert:
  assumes y: "sys_inv c0 y" and s: "setAt pick (y_cache y) k d t nu = (c', ev)"
  shows "sys_inv c0 (y\<lparr>y_cache := c', y_gauge := gauge_after ev (y_gauge y),
           y_inserted := \<lparr>i_key = k, i_data = d, i_at = t, i_signed = nu\<rparr> # y_inserted y\<rparr>)"
proof -
  from y have ci: "cache_inv (y_cache y)" and cfg: "same_config c0 (y_cache y)" by (simp_all add: sys_inv_def)
  note si = setAt_inv [OF ci s]
  let ?ins = "\<lparr>i_key = k, i_data = d, i_at = t, i_signed = nu\<rparr> # y_inserted y"
  have entries: "backed (c_ttl c0) ?ins k' (e_data e) (e_expiresAt e)" if "cached c' k' = Some e" for k' e
    using si(3) [OF that]
  proof
    assume "cached (y_cache y) k' = Some e"
    with y show ?thesis by (auto simp: sys_inv_def intro: backed_Cons)
  next
    assume "k' = k \<and> e = \<lparr>e_data = d, e_expiresAt = entry_expiry (c_ttl (y_cache y)) t nu\<rparr> \<and> t < e_expiresAt e"
    with cfg show ?thesis by (auto simp: backed_def same_config_def)
  qed
  have answers: "\<exists>x. a_now a < x \<and> backed (c_ttl c0) ?ins (a_key a) d' x"
    if "a \<in> set (y_answers y)" and "a_data a = Some d'" for a d'
    using y that unfolding sys_inv_def by (meson backed_Cons)
  have unchanged: "c_entries c' = c_entries (y_cache y)"
    if "\<not> (c_enabled (y_cache y) \<and> 0 < c_maxEntries (y_cache y) \<and>
            t < entry_expiry (c_ttl (y_cache y)) t nu)"
    using s that by (auto simp: setAt_def Before_def Let_def split: if_splits)
  have "c_entriesGauge c0 \<longrightarrow> gauge_after ev (y_gauge y) = length (c_entries c')"
    using y si(2,4) cfg unchanged by (auto simp: sys_inv_def gauge_after_update same_config_def)
  then show ?thesis
    using entries answers si(1) same_config_trans [OF cfg si(2)] by (simp add: sys_inv_def)
qed

lemma sys_inv_step:
  assumes "step y y'" and "sys_inv c0 y"
  shows "sys_inv c0 y'"
  using assms(1)
proof cases
  case (read_live i k now d)
  from getAt_read_live [OF this(3)] assms(2) have "\<exists>x. now < x \<and> backed (c_ttl c0) (y_inserted y) k d x"
    by (auto simp: sys_inv_def)
  with read_live assms(2) show ?thesis by (auto intro: sys_inv_answered)
qed (use assms(2) in \<open>auto simp: sys_inv_getters intro: sys_inv_answered sys_inv_upgrade sys_inv_insert\<close>)

lemma reachable_inv:
  assumes "c_entries c0 = []" and "reachable c0 y"
  shows "sys_inv c0 y"
  using assms(2)
proof induction
  case start
  with assms(1) show ?case by (auto simp: sys_inv_def cache_inv_def same_config_def)
next
  case (move y y')
  from move.hyps(2) move.IH show ?case by (rule sys_inv_step)
qed

section \<open>Properties\<close>

text \<open>
  C10: under any interleaving of lookups and insertions on an initially empty cache, a lookup that
  serves bytes serves bytes that were inserted under the same key and, at the instant the lookup
  started, were within the TTL of that insertion and before the signed NextUpdate they were inserted
  with; the number of entries never exceeds the configured maximum (none at all when it is not
  positive or the cache is disabled), and the exported gauge is the number of entries.
\<close>
theorem concurrent_cache_correct:
  assumes "reachable c0 y" and "c_entries c0 = []"
  shows "list_all (\<lambda>a. case a_data a of
        None \<Rightarrow> True
      | Some d \<Rightarrow> list_ex (\<lambda>i. i_key i = a_key a \<and> i_data i = d \<and> a_now a < i_at i + c_ttl c0 \<and>
                            (i_signed i = 0 \<or> a_now a < i_signed i)) (y_inserted y)) (y_answers y) \<and>
    int (length (c_entries (y_cache y))) \<le> (if c_enabled c0 then max 0 (c_maxEntries c0) else 0) \<and>
    (if c_entriesGauge c0 then y_gauge y = length (c_entries (y_cache y)) else True)"
proof -
  from assms(2,1) have inv: "sys_inv c0 y" by (rule reachable_inv)
  have live: "backed ttl ins k d x \<Longrightarrow> now < x \<Longrightarrow>
      list_ex (\<lambda>i. i_key i = k \<and> i_data i = d \<and> now < i_at i + ttl \<and> (i_signed i = 0 \<or> now < i_signed i)) ins"
    for ttl ins k d x now
    by (auto simp: backed_def list_ex_iff entry_expiry_eq split: if_splits)
  have "case a_data a of None \<Rightarrow> True
      | Some d \<Rightarrow> list_ex (\<lambda>i. i_key i = a_key a \<and> i_data i = d \<and> a_now a < i_at i + c_ttl c0 \<and>
                            (i_signed i = 0 \<or> a_now a < i_signed i)) (y_inserted y)"
    if "a \<in> set (y_answers y)" for a
    using inv that live unfolding sys_inv_def by (fastforce split: option.splits)
  with inv show ?thesis
    by (auto simp: list_all_iff sys_inv_def cache_inv_def same_config_def split: if_splits)
qed

text \<open>
  C26: in the window between the two critical sections of a lookup, a replacement stored by another
  goroutine is neither lost nor ignored: when the write lock is taken, an entry that is live at the
  lookup's instant stays in the cache whatever its key, and the one under the looked-up key is what
  the lookup serves.
\<close>
theorem upgrade_keeps_live_entries:
  assumes "reachable c0 y" and "c_entries c0 = []" and "y_getters y i = Upgrading k now"
    and "getAt_upgrade (y_cache y) k now = (r, c', ev)"
    and "cached (y_cache y) k' = Some e" and "now < e_expiresAt e"
  shows "cached c' k' = Some e \<and> (if k' = k then r = Some (e_data e) \<and> c' = y_cache y else True)"
proof -
  from reachable_inv [OF assms(2,1)] have "cache_inv (y_cache y)" by (simp add: sys_inv_def)
  from getAt_upgrade_inv(4) [OF this assms(4-6)] assms(4-6) show ?thesis
    by (auto simp: getAt_upgrade_def Before_def)
qed

section \<open>Witnesses\<close>

definition ex_cache :: cache where
  "ex_cache = \<lparr>c_entries = [], c_ttl = 10, c_maxEntries = 2, c_enabled = True, c_entriesGauge = True\<rparr>"

text \<open>An entry expires, a lookup sees it expired, another goroutine replaces it before the upgrade.\<close>

definition ex_sys :: "cacheEntry \<Rightarrow> insertion list \<Rightarrow> (nat \<Rightarrow> getter) \<Rightarrow> sys" where
  "ex_sys e ins g = \<lparr>y_cache = ex_cache\<lparr>c_entries := [(''5'', e)]\<rparr>, y_getters = g, y_inserted = ins,
     y_answers = [], y_gauge = 1\<rparr>"

definition ex_ins1 :: insertion where
  "ex_ins1 = \<lparr>i_key = ''5'', i_data = [1], i_at = 100, i_signed = 0\<rparr>"

definition ex_ins2 :: insertion where
  "ex_ins2 = \<lparr>i_key = ''5'', i_data = [2], i_at = 111, i_signed = 118\<rparr>"

abbreviation ex_race :: sys where
  "ex_race \<equiv> ex_sys \<lparr>e_data = [2], e_expiresAt = 118\<rparr> [ex_ins2, ex_ins1] ((\<lambda>_. Idle)(0 := Upgrading ''5'' 110))"

lemma ex_race_reachable: "reachable ex_cache ex_race"
proof -
  let ?e1 = "\<lparr>e_data = [1], e_expiresAt = 110\<rparr> :: cacheEntry"
  let ?y0 = "\<lparr>y_cache = ex_cache, y_getters = (\<lambda>_. Idle), y_inserted = [], y_answers = [], y_gauge = 0\<rparr>"
  let ?y1 = "ex_sys ?e1 [ex_ins1] (\<lambda>_. Idle)"
  let ?y2 = "ex_sys ?e1 [ex_ins1] ((\<lambda>_. Idle)(0 := Begun ''5'' 110))"
  let ?y3 = "ex_sys ?e1 [ex_ins1] ((\<lambda>_. Idle)(0 := Upgrading ''5'' 110))"
  note d = ex_sys_def ex_cache_def ex_ins1_def ex_ins2_def setAt_def entry_expiry_def gauge_update_def
    Before_def Time_Add_def IsZero_def Let_def getAt_read_def
  have 1: "step ?y0 ?y1"
    using insert [of 0 ?y0 "''5''" "[1]" 100 0] by (simp add: d)
  have 2: "step ?y1 ?y2"
    using begin_get [of ?y1 0 "''5''" 110] by (simp add: d)
  have 3: "step ?y2 ?y3"
    using read_expired [of ?y2 0 "''5''" 110] by (simp add: d)
  have 4: "step ?y3 ex_race"
    using insert [of 0 ?y3 "''5''" "[2]" 111 118] by (simp add: d)
  from start 1 2 3 4 show ?thesis by (meson reachable.move)
qed

theorem upgrade_keeps_live_entries_witness:
  "reachable ex_cache ex_race \<and>
   getAt_upgrade (y_cache ex_race) ''5'' 110 = (Some [2], y_cache ex_race, [])"
proof -
  have u: "getAt_upgrade (y_cache ex_race) ''5'' 110 = (Some [2], y_cache ex_race, [])"
    by (simp add: ex_sys_def ex_cache_def getAt_upgrade_def Before_def)
  from upgrade_keeps_live_entries [OF ex_race_reachable _ _ u, of 0 "''5''" "\<lparr>e_data = [2], e_expiresAt = 118\<rparr>"] u
  show ?thesis using ex_race_reachable by (simp add: ex_cache_def ex_sys_def)
qed

theorem concurrent_cache_correct_witness:
  "\<exists>y. reachable ex_cache y \<and> y_answers y = [\<lparr>a_key = ''5'', a_now = 110, a_data = Some [2]\<rparr>] \<and>
     list_ex (\<lambda>i. i_key i = ''5'' \<and> i_data i = [2] \<and> 110 < i_at i + 10 \<and> (i_signed i = 0 \<or> 110 < i_signed i))
       (y_inserted y)"
proof -
  have u: "getAt_upgrade (y_cache ex_race) ''5'' 110 = (Some [2], y_cache ex_race, [])"
    by (simp add: ex_sys_def ex_cache_def getAt_upgrade_def Before_def)
  let ?y = "answered 0 ''5'' 110 (Some [2]) (ex_race\<lparr>y_cache := y_cache ex_race, y_gauge := gauge_after [] (y_gauge ex_race)\<rparr>)"
  have "step ex_race ?y" by (rule upgrade [OF _ u]) (simp add: ex_sys_def)
  with ex_race_reachable have r: "reachable ex_cache ?y" by (rule reachable.move)
  have "y_answers ?y = [\<lparr>a_key = ''5'', a_now = 110, a_data = Some [2]\<rparr>]"
    by (simp add: answered_def ex_sys_def)
  with concurrent_cache_correct [OF r] r show ?thesis
    by (intro exI [of _ ?y]) (simp add: ex_cache_def)
qed

end
