(* ===== verification/Spec2Isabelle.thy ===== *)
theory Spec2Isabelle
  imports Program FileSourceConc HTTPSourceConc CacheInterleaving
begin

text \<open>
  An OCSP responder in Go: it answers "is this certificate revoked?" for the certificates of one
  issuing CA, with responses signed by a delegated signing certificate.

  \<^bold>\<open>Parts of the program and their theories.\<close>
  \<^item> \<open>internal/source\<close>: where the revocation status comes from.  \<open>source.go\<close> is theory \<open>SourceTypes\<close> (status
    vocabulary, the \<open>Source\<close> interface as a record of operations, its contract as the locale
    \<open>status_source\<close> and what it may record as \<open>telemetry_source\<close>); \<open>static.go\<close> is \<open>StaticSource\<close>; \<open>file.go\<close>, the
    CRL on disk or behind a URL with its reload goroutine, is \<open>FileSource\<close> and, with lookups and reloads
    interleaved, \<open>FileSourceConc\<close>; \<open>http.go\<close>, a CA's REST API with cache and retries, is \<open>HTTPSource\<close>
    and, with lookups interleaved, \<open>HTTPSourceConc\<close>.
  \<^item> \<open>internal/signer/signer.go\<close>: loading and authorising the signing pair, signing, expiry status and the
    expiry monitor, in \<open>Signer\<close>.
  \<^item> \<open>internal/responder/responder.go\<close>: the response cache in \<open>ResponseCache\<close> (with goroutines interleaved
    in \<open>CacheInterleaving\<close>), \<open>Handle\<close> and issuer binding in \<open>Responder\<close>.
  \<^item> \<open>internal/server\<close>: \<open>handler.go\<close> in \<open>Handler\<close>, \<open>metrics.go\<close> in \<open>Metrics\<close>, \<open>server.go\<close> (routes, listener, start and
    shutdown) in \<open>Server\<close>.
  \<^item> \<open>internal/config/config.go\<close> in \<open>Config\<close>; \<open>cmd/ocsp-responder/main.go\<close> in \<open>Program\<close>.
  \<^item> What the program uses of Go and its library: \<open>Prelude\<close> (strings, 64-bit wrap-around, maps as
    association lists), \<open>GoTime\<close> (\<open>time.Time\<close>, \<open>time.Duration\<close>, binary64 arithmetic), \<open>GoBigInt\<close>,
    \<open>GoDuration\<close> (\<open>time.ParseDuration\<close>), \<open>Base64\<close>; \<open>TTLCache\<close> is the contract the two caches share.

  \<^bold>\<open>How the model follows the code.\<close>  A struct is a record with the fields of the source (prefixed
  where names clash), an operation a function from the state to the result, the new state, the
  telemetry calls and the log lines it makes; a fallible operation returns \<open>Inl\<close> the error or \<open>Inr\<close> the
  value.  Instants and durations are integers of nanoseconds; the zero \<open>time.Time\<close> is 0; sums of
  durations that Go computes in 64 bits wrap.  Clock readings, contexts, file systems, the network and
  the choice of a map entry to evict are arguments (records ending in \<open>env\<close>, \<open>io\<close> or \<open>world\<close>), so that a
  theorem speaks about every behaviour of them.  Third-party code (X.509, ASN.1 and PEM parsing,
  signatures, hashes, YAML, JSON, HTTP exchanges, the Prometheus client) is a parameter: records ending
  in \<open>lib\<close>, or function arguments.  What is required of the Prometheus client is \<open>prom_documented\<close>, of the
  digest that detects a changed CRL that it tells apart the contents concerned (stated where it is
  used); of the others nothing is required.

  \<^bold>\<open>What is shown.\<close>
  \<^item> End to end (this theory): \<open>program_accounted\<close>, every DER answer of the running program is signed by an
    authorised signer over a status the configured source gave for that serial, within the freshness
    bounds of source and cache; \<open>startup_checked\<close>, which exits start-up has; \<open>main_exit_status\<close>, what the
    exit status says; \<open>telemetry_accounts\<close>, what the counters count;
    \<open>failure_answer_reused\<close> and \<open>grace_answers_stale\<close>, two consequences of the composition that the
    documentation does not mention.
  \<^item> Sources: the three backends satisfy \<open>status_source\<close>, and so does the interface value that holds one
    of them (\<open>any_source\<close> in \<open>Program\<close>); lookups refine what a verified CRL says; reloads install exactly
    what is published or withdraw the source, and log each transition of the validity window once; the
    retry loop, its waits and its end; health.
  \<^item> Concurrency: step relations over the critical sections of the response cache and of the CRL
    generation, and over the atomic actions of HTTP lookups, with invariants by rule induction over the reachable states.
  \<^item> Signer: authorisation, the freshness window of a response, exactness of the expiry thresholds under
    binary64 rounding (locales \<open>float_rounding\<close> and \<open>monotone_rounding\<close>, interpreted on the rounding
    function).
  \<^item> HTTP: every outcome of the handlers, base64 round trip and unambiguity, size limits, routing of GET
    requests, the listener.
  \<^item> Configuration: \<open>validate\<close> accepts exactly the valid configurations.

  \<^bold>\<open>Bounds and termination.\<close>  No fuel is used: every loop is structural or comes with a termination
  measure (the retry loop by the attempts left, number printing by the number, base64 by the length of
  the text).  The reload loop and the expiry monitor run for ever in the program; the model runs them
  over a finite list of events.

  \<^bold>\<open>Not modelled.\<close>  The time limits of \<open>http.Server\<close>, the ACME certificate manager and the metrics page
  (library code the program only calls; of the certificate manager, the fields the program sets and that
  it returns a TLS configuration are kept); delivery of signals; the
  text of log lines and errors beyond which one is produced; the test hooks of the file source and the
  cache, which are nil in production.  A run of the server in \<open>Server\<close> serves requests one after the
  other; what may interleave inside them is covered by the three theories on shared state.
\<close>

section \<open>The whole program\<close>

text \<open>
  What the reload goroutine can turn the program's source into: for a CRL source the states its loop
  reaches from the one the constructor built; the other sources never move on their own.
\<close>

definition reloaded :: "crl_lib \<Rightarrow> AnySource \<Rightarrow> AnySource \<Rightarrow> bool" where
  "reloaded x src s \<longleftrightarrow> (\<exists>fs es s' l. src = AnyFile fs \<and> reloadLoop x fs es = Some (s', l) \<and> s = AnyFile s')"

abbreviation world_crl :: "'r world \<Rightarrow> crl_lib" where
  "world_crl w \<equiv> sw_crl_lib (wd_source w)"

abbreviation program_responder :: "'r program \<Rightarrow> (http_env, AnySource, Signer) Responder" where
  "program_responder p \<equiv> sv_responder (pg_server p)"

lemma startup_responder:
  assumes "startup w path = Inr p"
  shows "any_inv (world_crl w) (r_source (program_responder p)) \<and> r_src_ops (program_responder p) = any_source \<and>
    r_sgn_ops (program_responder p) = signer_iface (wd_xocsp w) \<and> c_entries (r_cache (program_responder p)) = [] \<and>
    r_metrics (program_responder p) \<and> sv_metrics (pg_server p)"
proof (rule startup_Inr [OF assms])
  fix cfg sg slogs src logs ttl
  assume "Load (wd_ReadFile w) (wd_yaml w) path = Inr cfg"
    and n: "newSource (wd_source w) cfg (Some (sg_issuerCert sg)) = Inr (src, logs)"
    and p: "pg_server p = New cfg (NewResponder any_source (observe src) (signer_iface (wd_xocsp w)) sg ttl
           (cac_MaxEntries (cfg_Cache cfg)) (cac_Enabled (cfg_Cache cfg)) True True) sg True"
  then have "source_ok (cfg_Source cfg)" by (auto dest!: Load_valid simp: valid_config_def)
  from newSource_inv [OF this n] show ?thesis by (simp add: p New_def NewResponder_def)
qed

lemma startup_authorised:
  assumes "startup w path = Inr p"
  shows "authorised (wd_signer_lib w) (r_signer (program_responder p)) \<and> sv_signer (pg_server p) = r_signer (program_responder p)"
proof (rule startup_Inr [OF assms])
  fix cfg sg slogs src logs ttl
  assume n: "NewSigner (wd_signer_lib w) (wd_signer_now w) (sgc_CertFile (cfg_Signer cfg)) (sgc_KeyFile (cfg_Signer cfg))
           (sgc_IssuerCertFile (cfg_Signer cfg)) (sg_validity sg) = Inr (sg, slogs)"
    and p: "pg_server p = New cfg (NewResponder any_source (observe src) (signer_iface (wd_xocsp w)) sg ttl
           (cac_MaxEntries (cfg_Cache cfg)) (cac_Enabled (cfg_Cache cfg)) True True) sg True"
  from n have "authorised (wd_signer_lib w) sg" by (simp only: NewSigner_Inr)
  then show ?thesis by (simp add: p New_def NewResponder_def)
qed

lemma as_revents_moves: "SourceMoves s \<in> set (as_revents ttl ev) \<longleftrightarrow> ev = Moves s"
  by (cases ev) (auto split: option.splits)

lemma reloaded_inv:
  assumes "any_inv x src" and "reloaded x src s"
  shows "any_inv x s"
proof -
  from assms(2) obtain fs es s' l where src: "src = AnyFile fs" "s = AnyFile s'" and "reloadLoop x fs es = Some (s', l)"
    unfolding reloaded_def by blast
  then have "reload_run x fs es = (s', l)" by (simp add: reloadLoop_def split: if_splits)
  with reload_run_inv [of x fs es] assms(1) src show ?thesis by simp
qed

text \<open>
  C1: the central promise, end to end.  After a successful start-up with any configuration, and after
  any run of requests and CRL reloads, an answer with a DER body is accounted for: the HTTP request
  carried an OCSP request for this signer's issuer, and the bytes are a signature by an authorised
  signer over a status that the configured source itself gave for that very serial (\<open>unknown\<close> is the only
  status given in its place), not asserted beyond the source's own NextUpdate; if they come from the
  cache, the TTL and the signed NextUpdate have not passed.
\<close>
theorem program_accounted:
  assumes "startup w path = Inr p"
    and "\<forall>s. Moves s \<in> set evs \<longrightarrow> reloaded (world_crl w) (r_source (program_responder p)) s"
    and "web_run x parseResp ttl evs (pg_server p) = (sv, ms)"
    and "serve_request x parseResp ttl se wq sv = (Answered resp, sv', ms')" and "w_body resp = DERBody d"
  shows "authorised (wd_signer_lib w) (r_signer (program_responder p)) \<and>
    (\<exists>der. carried ttl wq = Some der \<and>
      accounted x (signed_for (wd_xocsp w)) (any_vouches (world_crl w)) (any_revokes (world_crl w))
        (program_responder p) (concat (map (as_revents ttl) evs)) (se_handle se) der d)"
proof -
  note r = startup_responder [OF assms(1)]
  let ?evs = "concat (map (as_revents ttl) evs)"
  from serve_request_responder(2) [OF assms(4) refl assms(5)] web_run_responder [OF assms(3)]
  obtain der ms2 ls where c: "carried ttl wq = Some der"
    and h: "Handle x (se_handle se) der (serve x ?evs (program_responder p)) = (Inr d, sv_responder sv', ms2, ls)" by auto
  have "Moves s \<in> set evs" if "SourceMoves s \<in> set ?evs" for s
    using that by (auto simp: as_revents_moves)
  with assms(2) r have "\<forall>s. SourceMoves s \<in> set ?evs \<longrightarrow> any_inv (world_crl w) s"
    using reloaded_inv by blast
  with r have "accounted x (signed_for (wd_xocsp w)) (any_vouches (world_crl w)) (any_revokes (world_crl w))
        (program_responder p) ?evs (se_handle se) der d"
    by (intro svc.service_accounted [OF _ _ _ _ _ h]) simp_all
  with c startup_authorised [OF assms(1)] show ?thesis by blast
qed

text \<open>
  C31: start-up is decided by the validated configuration, the signer and the source.  The program never
  exits over a duration, a source type or a cache TTL after the configuration was accepted, and the
  server never fails over it either; a CRL source always gets a positive reload interval, so that its
  ticker does not panic and the reload loop runs, and a grace that is not negative; an HTTP source
  makes at least one attempt and waits a positive time between attempts.  The expiry monitor watches
  the very signer that signs.
\<close>
theorem startup_checked:
  "case startup w path of
     Inl err \<Rightarrow> err \<in> range ConfigError \<union> range SignerError \<union> range (SourceSetup \<circ> SourceError) \<union> {MetricsPanic}
   | Inr p \<Rightarrow>
       valid_config (sv_cfg (pg_server p)) \<and> fst (Start sx (sv_cfg (pg_server p))) \<noteq> Some InvalidCacheTTL \<and>
       0 < sg_validity (r_signer (program_responder p)) \<and>
       pg_monitor p = StartExpiryMonitor True (r_signer (program_responder p)) \<and>
       (case r_source (program_responder p) of
          AnyFile fs \<Rightarrow> reloadLoop (world_crl w) fs es \<noteq> None \<and> 0 \<le> fs_expiryGrace fs
        | AnyStatic s \<Rightarrow> static_inv s
        | AnyHTTP s \<Rightarrow> 0 < hs_maxAttempts s \<and> 0 < hs_backoff s)"
proof (cases "startup w path")
  case (Inl err)
  then show ?thesis by (auto dest: startup_error)
next
  case (Inr p)
  show ?thesis
  proof (rule startup_Inr [OF Inr])
    fix cfg sg slogs src logs ttl
    assume l: "Load (wd_ReadFile w) (wd_yaml w) path = Inr cfg"
      and n: "newSource (wd_source w) cfg (Some (sg_issuerCert sg)) = Inr (src, logs)"
      and ttl: "ParseDuration (cac_TTL (cfg_Cache cfg)) = Some ttl"
      and v: "ParseDuration (sgc_ResponseValidity (cfg_Signer cfg)) = Some (sg_validity sg)"
      and p: "pg_server p = New cfg (NewResponder any_source (observe src) (signer_iface (wd_xocsp w)) sg ttl
           (cac_MaxEntries (cfg_Cache cfg)) (cac_Enabled (cfg_Cache cfg)) True True) sg True"
        "pg_monitor p = StartExpiryMonitor True sg"
    from Load_valid [OF l] have vc: "valid_config cfg" and ok: "source_ok (cfg_Source cfg)"
      and "duration_sat (\<lambda>d. 0 < d) (sgc_ResponseValidity (cfg_Signer cfg))" by (simp_all add: valid_config_def)
    with v have "0 < sg_validity sg" by (simp add: duration_sat_def)
    moreover have "fst (Start sx cfg) \<noteq> Some InvalidCacheTTL" by (rule Start_valid [OF ttl])
    moreover have "case observe src of
          AnyFile fs \<Rightarrow> reloadLoop (world_crl w) fs es \<noteq> None \<and> 0 \<le> fs_expiryGrace fs
        | AnyStatic s \<Rightarrow> static_inv s
        | AnyHTTP s \<Rightarrow> 0 < hs_maxAttempts s \<and> 0 < hs_backoff s"
      using newSource_inv [OF ok n] n
      by (cases src) (auto simp: reloadLoop_def SetObserver_def http_inv_def dest!: newSource_file [OF ok] newSource_http)
    ultimately show ?thesis using vc by (simp add: Inr p New_def NewResponder_def)
  qed
qed

text \<open>
  C38: the exit status of the program, by what happened.  It is 0 exactly when the command line asks for
  help, or when the program started up and shut down in an orderly way (the shutdown signal came, or its
  listener ended without failing, and the shutdown finished in time); 2 exactly for a bad command line or
  a panic while registering metrics; and 1 otherwise.
\<close>
theorem main_exit_status:
  "(main w sx args = 0 \<longleftrightarrow>
     parse_flags defaultConfigPath args = FlagHelp \<or>
     (\<exists>path p. parse_flags defaultConfigPath args = FlagValue path \<and> startup w path = Inr p \<and> sx_shutdown sx \<and>
        (sx_wake sx = CtxDone \<or>
         (\<exists>l. fst (open_listener (sx_autocert sx) (sx_probe sx) (sx_files sx) (cfg_Server (sv_cfg (pg_server p)))) = Inr l) \<and>
           sx_listen sx \<noteq> Some ListenError))) \<and>
   (main w sx args = 2 \<longleftrightarrow>
     parse_flags defaultConfigPath args = FlagError \<or>
     (\<exists>path. parse_flags defaultConfigPath args = FlagValue path \<and> startup w path = Inl MetricsPanic)) \<and>
   main w sx args \<in> {0, 1, 2}"
proof (cases "parse_flags defaultConfigPath args")
  case (FlagValue path)
  show ?thesis
  proof (cases "startup w path")
    case (Inl err)
    with FlagValue show ?thesis by (cases err) (simp_all add: main_def)
  next
    case (Inr p)
    have "ParseDuration (cac_TTL (cfg_Cache (sv_cfg (pg_server p)))) \<noteq> None"
      by (rule startup_Inr [OF Inr]) (simp add: New_def)
    with Start_None [of sx "sv_cfg (pg_server p)"] Inr FlagValue show ?thesis
      by (cases "fst (Start sx (sv_cfg (pg_server p)))") (simp_all add: main_def)
  qed
qed (simp_all add: main_def)

text \<open>
  C32: the exported counters account for the traffic.  Over any run, performing the recorded telemetry on
  the registered collectors never panics; the request counter counts the requests that reached
  \<open>Handle\<close>, cache hits and misses together the ones that reached the cache (a live, well-formed request
  for this issuer), and the source counter the misses.
\<close>
theorem telemetry_accounts:
  assumes "startup w path = Inr p" and "prom_documented (wd_prom w) names descs"
    and "web_run x parseResp ttl evs (pg_server p) = (sv, ms)"
  shows "\<exists>os. perform_all (wd_prom w) (pg_metrics p) ms = Some os \<and>
    reached x parseResp ttl evs (pg_server p) =
      (incs (m_RequestsTotal (pg_metrics p)) os,
       incs (m_CacheHits (pg_metrics p)) os + incs (m_CacheMisses (pg_metrics p)) os) \<and>
    incs (m_SourceRequests (pg_metrics p)) os = incs (m_CacheMisses (pg_metrics p)) os"
proof -
  have "any.instrumented (pg_server p)" using startup_responder [OF assms(1)] by simp
  note c = any.web_run_counts [OF this assms(3)]
  have m: "pg_metrics p = the_metrics" by (rule startup_Inr [OF assms(1)]) (erule NewMetrics_the)
  from c perform_all_counts [OF assms(2), of ms] show ?thesis unfolding m by auto
qed

lemma admitted_unique: "admitted x he der r req \<Longrightarrow> admitted x he der r req' \<Longrightarrow> req' = req"
  by (simp add: admitted_def)

text \<open>A successful answer to a serial that is not in the cache: looked up, signed, and offered to the cache.\<close>

lemma Handle_uncached:
  assumes "cache_inv (r_cache r)" and "admitted x he der r req"
    and "cached (r_cache r) (big_String (SerialNumber req)) = None" and "Handle x he der r = (Inr d, r1, ms, ls)"
  obtains nu where "sign_lookup r he (SerialNumber req) = Inr (d, nu)"
    and "r_cache r1 = fst (setAt (he_pick he) (r_cache r) (big_String (SerialNumber req)) d (he_set_now he) nu)"
proof -
  have g: "getAt (r_cache r) (big_String (SerialNumber req)) (he_get_now he) = (None, r_cache r, [])"
    using assms(1,3) by (simp add: getAt_eq getAt_upgrade_def)
  obtain nu where s: "sign_lookup r he (SerialNumber req) = Inr (d, nu)"
    by (cases rule: Handle_Inr [OF assms(1,4)]) (use assms(2,3) admitted_unique in fastforce)+
  with Handle_r_cache [OF assms(2) g assms(4)] show ?thesis by (intro that) simp_all
qed

text \<open>
  C36: an answer given because the source failed is cached like any other: the \<open>unknown\<close> bytes signed for a
  failed lookup are served to every further request for that serial until the TTL or the signed
  NextUpdate passes, whatever the source has become in the meantime, and without asking it.
\<close>
theorem failure_answer_reused:
  assumes "cache_inv (r_cache r)" and "c_enabled (r_cache r)" and "0 < c_maxEntries (r_cache r)"
    and "r_sgn_ops r = signer_iface xocsp" and "admitted x he der r req"
    and "cached (r_cache r) (big_String (SerialNumber req)) = None"
    and "GetStatus (r_src_ops r) (he_src he) (SerialNumber req) (Some (sg_issuerCert (r_signer r))) (r_source r) = (Inl err, src', ev)"
    and "Handle x he der r = (Inr d, r1, ms, ls)"
    and "admitted x he2 der2 (r1\<lparr>r_source := s\<rparr>) req2" and "SerialNumber req2 = SerialNumber req"
    and "he_set_now he \<le> he_get_now he2" and "he_get_now he2 < he_set_now he + c_ttl (r_cache r)"
    and "he_get_now he2 < response_nextUpdate (sg_validity (r_signer r)) (he_sign_now he) 0"
  shows "signed_for xocsp (r_signer r) d (SerialNumber req) StatusUnknown None (he_sign_now he)
      (response_nextUpdate (sg_validity (r_signer r)) (he_sign_now he) 0) \<and>
    fst (Handle x he2 der2 (r1\<lparr>r_source := s\<rparr>)) = Inr d \<and>
    r_source (fst (snd (Handle x he2 der2 (r1\<lparr>r_source := s\<rparr>)))) = s"
proof -
  let ?n = "SerialNumber req" and ?nu = "response_nextUpdate (sg_validity (r_signer r)) (he_sign_now he) 0"
  let ?x = "entry_expiry (c_ttl (r_cache r)) (he_set_now he) ?nu"
  obtain nu where s: "sign_lookup r he ?n = Inr (d, nu)"
    and r1: "r_cache r1 = fst (setAt (he_pick he) (r_cache r) (big_String ?n) d (he_set_now he) nu)"
    by (rule Handle_uncached [OF assms(1,5,6,8)])
  have "looked_up r he ?n = (StatusUnknown, None, 0)" using assms(4,7) by (simp add: lookup_outcome_def)
  with s assms(4) have c: "Signer_CreateResponse xocsp (r_signer r) ?n StatusUnknown None (he_sign_now he) 0 = Inr (d, nu)"
    by simp
  then have nu: "nu = ?nu" and sf: "signed_for xocsp (r_signer r) d ?n StatusUnknown None (he_sign_now he) nu"
    by (auto simp: CreateResponse_Inr response_nextUpdate_eq)
  have live: "he_get_now he2 < ?x" using assms(12,13) by (auto simp: entry_expiry_eq)
  have "cached (r_cache r1) (big_String ?n) = Some \<lparr>e_data = d, e_expiresAt = ?x\<rparr>"
    using setAt_stores [OF prod.collapse [symmetric]] assms(2,3,11) live by (simp add: r1 nu)
  moreover have "cache_inv (r_cache r1)" using Handle_cache [OF assms(1,8)] by blast
  ultimately have "getAt (r_cache (r1\<lparr>r_source := s\<rparr>)) (big_String (SerialNumber req2)) (he_get_now he2) = (Some d, r_cache r1, [])"
    using live assms(10) by (simp add: getAt_eq getAt_upgrade_def Before_def)
  with sf nu show ?thesis by (simp add: Handle_admitted [OF assms(9)])
qed

text \<open>
  C35: inside the expiry grace the CRL source still answers, but the signed response is stale on arrival:
  its NextUpdate, capped at the CRL's, lies before its own ThisUpdate, and the response is never
  cached.
\<close>
theorem grace_answers_stale:
  assumes "cache_inv (r_cache r)" and "r_src_ops r = any_source" and "r_sgn_ops r = signer_iface xocsp"
    and "r_source r = AnyFile s" and "fs_loaded s" and "crlUsable (ce_now (he_src he)) s"
    and "RawSubject (sg_issuerCert (r_signer r)) = RawSubject (fs_issuerCert s)" and "ce_ctxErr (he_src he) = None"
    and "0 \<le> sg_validity (r_signer r)" and "Second \<le> fs_nextUpdate s" and "fs_nextUpdate s < he_sign_now he" and "he_sign_now he \<le> he_set_now he"
    and "admitted x he der r req" and "cached (r_cache r) (big_String (SerialNumber req)) = None"
    and "Handle x he der r = (Inr d, r1, ms, ls)"
  shows "\<exists>st ri nu. st \<in> {StatusGood, StatusRevoked} \<and>
    signed_for xocsp (r_signer r) d (SerialNumber req) st ri (he_sign_now he) nu \<and> nu < he_sign_now he \<and>
    cached (r_cache r1) (big_String (SerialNumber req)) = None"
proof -
  let ?n = "SerialNumber req"
  obtain nu where s: "sign_lookup r he ?n = Inr (d, nu)"
    and r1: "r_cache r1 = fst (setAt (he_pick he) (r_cache r) (big_String ?n) d (he_set_now he) nu)"
    by (rule Handle_uncached [OF assms(1,13-15)])
  obtain st ri where look: "looked_up r he ?n = (st, ri, fs_nextUpdate s)" and st: "st \<in> {StatusGood, StatusRevoked}"
    using assms(2-8) by (cases "fs_revoked s (big_String ?n)") (auto simp: FileSource_GetStatus_def snapshot_answer_def
        lookup_outcome_def on_state_def crlUsable_def crlValiditySnapshot_def)
  from look s assms(3) have c: "Signer_CreateResponse xocsp (r_signer r) ?n st ri (he_sign_now he) (fs_nextUpdate s) = Inr (d, nu)"
    by simp
  have "deadline (sg_validity (r_signer r)) (he_sign_now he) (fs_nextUpdate s) = fs_nextUpdate s"
    using assms(9-11) by (simp add: deadline_def)
  with c have sf: "signed_for xocsp (r_signer r) d ?n st ri (he_sign_now he) nu"
    and nu: "nu = Time_Truncate (fs_nextUpdate s) Second" by (auto simp: CreateResponse_Inr)
  have "fs_nextUpdate s - Second < nu" "nu \<le> fs_nextUpdate s"
    unfolding nu by (rule Time_Truncate_gt, simp) (rule Time_Truncate_le)
  with assms(10-12) have "0 < nu" "nu < he_sign_now he" "nu < he_set_now he" by simp_all
  then have "r_cache r1 = r_cache r" unfolding r1 by (simp add: setAt_def Before_def entry_expiry_eq)
  with sf st \<open>nu < he_sign_now he\<close> assms(14) show ?thesis by auto
qed

section \<open>Witnesses\<close>

text \<open>
  A small world: a configuration with a CRL file, a signer whose files are \<open>c\<close>, \<open>k\<close> and \<open>i\<close>, and the CRL of
  the examples in theory \<open>FileSource\<close>.
\<close>

definition ex_config :: Config where
  "ex_config = empty_Config\<lparr>
     cfg_Signer := \<lparr>sgc_CertFile = ''c'', sgc_KeyFile = ''k'', sgc_IssuerCertFile = ''i'', sgc_ResponseValidity = ''1h''\<rparr>,
     cfg_Source := (cfg_Source empty_Config)\<lparr>src_Type := ''file'',
       src_File := \<lparr>fsc_CRLPath = ''ca.crl'', fsc_ReloadInterval = ''1m'', fsc_ExpiryGrace = ''''\<rparr>\<rparr>,
     cfg_Cache := \<lparr>cac_Enabled = True, cac_TTL = ''1h'', cac_MaxEntries = 10\<rparr>\<rparr>"

definition ex_signer_lib :: signer_lib where
  "ex_signer_lib = \<lparr>sl_ReadFile = (\<lambda>f. if f = ''c'' then Some [1] else if f = ''k'' then Some [2] else if f = ''i'' then Some [3] else None),
     sl_pem_Decode = (\<lambda>_. None),
     sl_ParseCertificate = (\<lambda>b. if b = [1] then Some (sg_cert ex_signer) else if b = [3] then Some (sg_issuerCert ex_signer) else None),
     sl_ParsePKCS8PrivateKey = (\<lambda>b. if b = [2] then Some (sg_key ex_signer) else None),
     sl_ParsePKCS1PrivateKey = (\<lambda>_. None), sl_CheckSignatureFrom = (\<lambda>_ _. True)\<rparr>"

definition ex_world :: "string list world" where
  "ex_world = \<lparr>wd_ReadFile = (\<lambda>_. Some []), wd_yaml = (\<lambda>_. YamlDoc ex_config), wd_signer_lib = ex_signer_lib,
     wd_signer_now = Hour,
     wd_source = \<lparr>sw_crl_lib = ex_lib, sw_crl_io = ex_io [1], sw_now = Hour, sw_ReadFile = (\<lambda>_. None), sw_hasPEM = (\<lambda>_. False)\<rparr>,
     wd_prom = ex_prom, wd_xocsp = ex_xocsp\<rparr>"

definition ex_fs :: FileSource where
  "ex_fs = (ex_source ''ca.crl'')\<lparr>fs_issuerCert := sg_issuerCert ex_signer\<rparr>"

lemma ex_durations: "ParseDuration ''1h'' = Some Hour" "ParseDuration ''1m'' = Some Minute"
  by code_simp+

lemma ex_config_valid: "valid_config (with_defaults ex_config)"
  by (simp add: valid_config_def with_defaults_def ex_config_def empty_Config_def Let_def DefaultListenAddr_def
      source_ok_def duration_sat_def duration_ok_def ex_durations)

lemma ex_NewSigner: "\<exists>l. NewSigner ex_signer_lib Hour ''c'' ''k'' ''i'' Hour = Inr (ex_signer, l)"
  by (simp add: NewSigner_Inr loadCert_def loadKey_def ex_signer_lib_def)
    (simp add: ex_signer_def authorised_def ExtKeyUsageOCSPSigning_def KeyUsageCertSign_def)

lemma ex_newSource:
  "newSource (wd_source ex_world) (with_defaults ex_config) (Some (sg_issuerCert ex_signer)) = Inr (AnyFile ex_fs, [])"
  by (simp add: newSource_def new_file_source_def with_defaults_def ex_config_def empty_Config_def Let_def ex_durations
      ex_world_def NewFileSource_def loadCRL_def loadFromDisk_def readCRLFile_def parseCRLBytes_def
      verifyCRLForIssuer_def checkExpiry_def crlValiditySnapshot_def window_simps storeHash_def ex_defs ex_fs_def ex_signer_def)

definition ex_program_server :: "(http_env, AnySource) Server" where
  "ex_program_server = New (with_defaults ex_config)
     (NewResponder any_source (AnyFile ex_fs) (signer_iface ex_xocsp) ex_signer Hour 10 True True True) ex_signer True"

lemma ex_startup: "\<exists>p. startup ex_world ''cfg'' = Inr p \<and> pg_server p = ex_program_server"
proof -
  have l: "Load (wd_ReadFile ex_world) (wd_yaml ex_world) ''cfg'' = Inr (with_defaults ex_config)"
    by (simp add: Load_def ex_world_def validate_iff ex_config_valid)
  have f: "sgc_ResponseValidity (cfg_Signer (with_defaults ex_config)) = ''1h''"
    "sgc_CertFile (cfg_Signer (with_defaults ex_config)) = ''c''" "sgc_KeyFile (cfg_Signer (with_defaults ex_config)) = ''k''"
    "sgc_IssuerCertFile (cfg_Signer (with_defaults ex_config)) = ''i''"
    "cac_TTL (cfg_Cache (with_defaults ex_config)) = ''1h''" "cac_Enabled (cfg_Cache (with_defaults ex_config))"
    "cac_MaxEntries (cfg_Cache (with_defaults ex_config)) = 10"
    by (simp_all add: with_defaults_def ex_config_def Let_def)
  obtain sl where s: "NewSigner ex_signer_lib Hour ''c'' ''k'' ''i'' Hour = Inr (ex_signer, sl)" using ex_NewSigner by blast
  obtain reg where m: "NewMetrics ex_prom = Some (the_metrics, reg)" using ex_NewMetrics by blast
  have w: "wd_signer_lib ex_world = ex_signer_lib" "wd_signer_now ex_world = Hour" "wd_prom ex_world = ex_prom"
    "wd_xocsp ex_world = ex_xocsp" by (simp_all add: ex_world_def)
  show ?thesis
    by (simp add: startup_def l f s m w ex_durations ex_newSource Signer_IssuerCert_def ex_program_server_def)
qed

definition ex_serve_env :: "(http_env, AnySource) serve_env" where
  "ex_serve_env = \<lparr>se_handle = \<lparr>he_ctxErr = None, he_start = Hour, he_get_now = Hour + 1, he_src = ex_http_env\<lparr>ce_now := Hour + 2\<rparr>,
       he_sign_now = Hour + 3, he_set_now = Hour + 4, he_pick = 0, he_log_now = Hour + 5\<rparr>,
     se_start = Hour, se_fin = Hour + 6,
     se_health = \<lparr>hv_valid1 = 0, hv_days = 0, hv_expiry = 0, hv_healthy1 = 0, hv_valid2 = 0, hv_healthy2 = 0\<rparr>,
     se_source2 = AnyFile ex_fs\<rparr>"

definition ex_wire :: wire_request where
  "ex_wire = \<lparr>wq_Method = ''POST'', wq_path = ''/'', wq_body = ([7, 5], False)\<rparr>"

lemma ex_reloaded: "reloaded ex_lib (AnyFile ex_fs) (AnyFile ex_fs)"
proof -
  have "reloadLoop ex_lib ex_fs [Tick (ex_io [1]) Hour, Done] = Some (ex_fs, [])"
    by (simp add: reloadLoop_def reload_tick_def reloadFromDiskIfChanged_def readCRLFile_def checkExpiry_def
        crlValiditySnapshot_def window_simps ex_fs_def ex_defs)
  then show ?thesis by (auto simp: reloaded_def)
qed

lemma ex_run: "web_run ex_rlib ex_parse Hour [Moves (AnyFile ex_fs)] ex_program_server = (ex_program_server, [])"
  by (simp add: ex_program_server_def New_def NewResponder_def)

lemma ex_admitted:
  "admitted ex_rlib (se_handle ex_serve_env) [7, 5] (sv_responder ex_program_server)
     \<lparr>HashAlgorithm = 3, IssuerNameHash = [7], IssuerKeyHash = [8], SerialNumber = 5\<rparr>"
  by (simp add: admitted_def ex_serve_env_def ex_rlib_def ex_program_server_def New_def NewResponder_def names_issuer_def ex_signer_def)

lemma ex_file_lookup:
  "FileSource_GetStatus (call_env.truncate (he_src (se_handle ex_serve_env))) 5 (Some (sg_issuerCert ex_signer)) ex_fs =
     (Inr (Some \<lparr>cs_Status = StatusRevoked, cs_RevocationInfo = Some \<lparr>RevokedAt = 50, Reason = 1\<rparr>,
                 cs_SourceNextUpdate = 2 * Hour\<rparr>), ex_fs, [])"
  by (simp add: FileSource_GetStatus_def ex_serve_env_def ex_http_env_def ex_fs_def ex_defs ex_signer_def window_simps
      snapshot_answer_def crl_index_def)

lemma ex_sign:
  "Signer_CreateResponse ex_xocsp ex_signer 5 StatusRevoked (Some \<lparr>RevokedAt = 50, Reason = 1\<rparr>) (Hour + 3) (2 * Hour) =
     Inr ([1, 5], 2 * Hour)"
  by code_simp

lemma ex_Handle:
  "\<exists>r1 ms ls. Handle ex_rlib (se_handle ex_serve_env) [7, 5] (sv_responder ex_program_server) = (Inr [1, 5], r1, ms, ls)"
proof -
  let ?r = "sv_responder ex_program_server"
  have g: "getAt (r_cache ?r) (big_String 5) (he_get_now (se_handle ex_serve_env)) = (None, r_cache ?r, [])"
    by (simp add: getAt_def getAt_read_def ex_program_server_def New_def NewResponder_def)
  have "Handle ex_rlib (se_handle ex_serve_env) [7, 5] ?r = handle_miss (se_handle ex_serve_env) 5 ?r"
    using Handle_admitted [OF ex_admitted, of None "r_cache ?r" "[]"] g by (simp split: prod.splits)
  moreover have "fst (handle_miss (se_handle ex_serve_env) 5 ?r) = Inr [1, 5]"
    using ex_file_lookup ex_sign
    by (simp add: handle_miss_def ex_program_server_def New_def NewResponder_def on_state_def lookup_outcome_def
        ex_serve_env_def Let_def split: prod.splits)
  ultimately show ?thesis by (metis fst_conv prod_cases4)
qed

lemma ex_serve_request:
  obtains resp sv' ms where
    "serve_request ex_rlib ex_parse Hour ex_serve_env ex_wire ex_program_server = (Answered resp, sv', ms)"
    and "w_body resp = DERBody [1, 5]"
proof -
  have f: "findHandler ''POST'' ''/'' = RouteOCSP ''''" by (simp add: findHandler_def mux_match_def cleanPath_def path_Clean_def)
  have rd: "read_request Hour \<lparr>q_Method = ''POST'', q_body = ([7, 5], False), q_request = ''''\<rparr> = Inr ([7, 5], [])"
    by (simp add: read_request_def ReadAll_limited_def maxOCSPRequestSize_def)
  obtain r1 ms ls where "Handle ex_rlib (se_handle ex_serve_env) [7, 5] (sv_responder ex_program_server) = (Inr [1, 5], r1, ms, ls)"
    using ex_Handle by blast
  with that show ?thesis by (simp add: serve_request_def ex_wire_def f ServeOCSP_def rd)
qed

theorem program_accounted_witness:
  "\<exists>p der. startup ex_world ''cfg'' = Inr p \<and> carried Hour ex_wire = Some der \<and>
     accounted ex_rlib (signed_for ex_xocsp) (any_vouches ex_lib) (any_revokes ex_lib) (sv_responder (pg_server p))
       [SourceMoves (AnyFile ex_fs)] (se_handle ex_serve_env) der [1, 5]"
proof -
  obtain p where p: "startup ex_world ''cfg'' = Inr p" "pg_server p = ex_program_server" using ex_startup by blast
  have w: "world_crl ex_world = ex_lib" "wd_xocsp ex_world = ex_xocsp" by (simp_all add: ex_world_def)
  have src: "r_source (sv_responder ex_program_server) = AnyFile ex_fs"
    by (simp add: ex_program_server_def New_def NewResponder_def)
  obtain resp sv' ms where s: "serve_request ex_rlib ex_parse Hour ex_serve_env ex_wire ex_program_server = (Answered resp, sv', ms)"
    "w_body resp = DERBody [1, 5]" by (rule ex_serve_request)
  have "\<forall>s. Moves s \<in> set [Moves (AnyFile ex_fs)] \<longrightarrow> reloaded (world_crl ex_world) (r_source (program_responder p)) s"
    using ex_reloaded by (simp add: w p(2) src)
  from program_accounted [OF p(1) this _ _ s(2), unfolded p(2), OF ex_run s(1)] p show ?thesis by (auto simp: w)
qed

theorem telemetry_accounts_witness:
  "\<exists>p os. startup ex_world ''cfg'' = Inr p \<and>
     perform_all ex_prom (pg_metrics p) (snd (web_run ex_rlib ex_parse Hour [Web ex_serve_env ex_wire] (pg_server p))) = Some os \<and>
     incs (m_SourceRequests (pg_metrics p)) os = incs (m_CacheMisses (pg_metrics p)) os"
proof -
  obtain p where p: "startup ex_world ''cfg'' = Inr p" using ex_startup by blast
  have w: "wd_prom ex_world = ex_prom" by (simp add: ex_world_def)
  obtain sv ms where r: "web_run ex_rlib ex_parse Hour [Web ex_serve_env ex_wire] (pg_server p) = (sv, ms)"
    by (metis prod.exhaust)
  from telemetry_accounts [OF p, unfolded w, OF ex_prom_documented r] obtain os
    where "perform_all ex_prom (pg_metrics p) ms = Some os"
      and "incs (m_SourceRequests (pg_metrics p)) os = incs (m_CacheMisses (pg_metrics p)) os" by blast
  with p show ?thesis by (intro exI [of _ p] exI [of _ os]) (simp only: r snd_conv)
qed

lemma Handle_signs:
  assumes "cache_inv (r_cache r)" and "admitted x he der r req" and "cached (r_cache r) (big_String (SerialNumber req)) = None"
    and "sign_lookup r he (SerialNumber req) = Inr (d, nu)"
  shows "\<exists>r1 ms ls. Handle x he der r = (Inr d, r1, ms, ls)"
proof -
  have g: "getAt (r_cache r) (big_String (SerialNumber req)) (he_get_now he) = (None, r_cache r, [])"
    using assms(1,3) by (simp add: getAt_eq getAt_upgrade_def)
  obtain res r1 ms ls where h: "handle_miss he (SerialNumber req) r = (res, r1, ms, ls)" by (metis prod_cases4)
  with handle_miss_result(1) [OF h] assms(4) have "res = Inr d" by simp
  with h show ?thesis by (simp add: Handle_admitted [OF assms(2) g])
qed

text \<open>The same responder with a source that went out of service.\<close>

definition ex_down :: "(http_env, AnySource, Signer) Responder" where
  "ex_down = (sv_responder ex_program_server)\<lparr>r_source := AnyFile (ex_fs\<lparr>fs_loaded := False\<rparr>)\<rparr>"

definition ex_later :: "http_env handle_env" where
  "ex_later = (se_handle ex_serve_env)\<lparr>he_get_now := Hour + Minute\<rparr>"

lemma ex_down_cache:
  "cache_inv (r_cache ex_down)" "c_enabled (r_cache ex_down)" "0 < c_maxEntries (r_cache ex_down)"
  "cached (r_cache ex_down) k = None" "c_ttl (r_cache ex_down) = Hour"
  "r_sgn_ops ex_down = signer_iface ex_xocsp" "r_signer ex_down = ex_signer" "r_src_ops ex_down = any_source"
  by (simp_all add: ex_down_def ex_program_server_def New_def NewResponder_def cache_inv_def)

lemma admitted_r_cache_source [simp]:
  "admitted x he der (r\<lparr>r_source := s\<rparr>) req = admitted x he der r req" "admitted x he der (r\<lparr>r_cache := c\<rparr>) req = admitted x he der r req"
  by (simp_all add: admitted_def)

theorem failure_answer_reused_witness:
  "\<exists>r1 ms ls d. Handle ex_rlib (se_handle ex_serve_env) [7, 5] ex_down = (Inr d, r1, ms, ls) \<and>
     fst (Handle ex_rlib ex_later [7, 5] (r1\<lparr>r_source := AnyFile ex_fs\<rparr>)) = Inr d"
proof -
  let ?he = "se_handle ex_serve_env" and ?req = "\<lparr>HashAlgorithm = 3, IssuerNameHash = [7], IssuerKeyHash = [8], SerialNumber = 5\<rparr>"
  have a: "admitted ex_rlib ?he [7, 5] ex_down ?req" using ex_admitted by (simp add: ex_down_def)
  have l: "GetStatus (r_src_ops ex_down) (he_src ?he) (SerialNumber ?req) (Some (sg_issuerCert (r_signer ex_down))) (r_source ex_down) =
      (Inl ErrSourceUnhealthy, r_source ex_down, [])"
    by (simp add: ex_down_cache) (simp add: ex_down_def ex_serve_env_def ex_http_env_def FileSource_GetStatus_def on_state_def)
  have "sign_lookup ex_down ?he 5 = Signer_CreateResponse ex_xocsp ex_signer 5 StatusUnknown None (Hour + 3) 0"
    using l by (simp add: ex_down_cache lookup_outcome_def) (simp add: ex_serve_env_def)
  also have "\<dots> = Inr ([2, 5], 2 * Hour)" by code_simp
  finally have s: "sign_lookup ex_down ?he 5 = Inr ([2, 5], 2 * Hour)" .
  obtain r1 ms ls where h: "Handle ex_rlib ?he [7, 5] ex_down = (Inr [2, 5], r1, ms, ls)"
    using Handle_signs [OF ex_down_cache(1) a] s ex_down_cache(4) by auto
  have "r_sgn_ops r1 = signer_iface ex_xocsp" "r_signer r1 = ex_signer"
    using Handle_frame [OF h] by (simp_all add: ex_down_cache)
  then have a2: "admitted ex_rlib ex_later [7, 5] (r1\<lparr>r_source := AnyFile ex_fs\<rparr>) ?req"
    using ex_admitted by (simp add: admitted_def ex_later_def ex_program_server_def New_def NewResponder_def)
  have n: "response_nextUpdate (sg_validity (r_signer ex_down)) (he_sign_now ?he) 0 = 2 * Hour"
    unfolding ex_down_cache by code_simp
  from failure_answer_reused [OF ex_down_cache(1-3,6) a _ l _ a2 refl, of "[2, 5]" ms ls] h ex_down_cache(4)
  show ?thesis unfolding n by (simp add: ex_down_cache ex_later_def) (simp add: ex_serve_env_def)
qed

text \<open>A CRL that expired a minute ago, within a grace of half an hour.\<close>

definition ex_grace :: "(http_env, AnySource, Signer) Responder" where
  "ex_grace = (sv_responder ex_program_server)\<lparr>r_source := AnyFile (ex_fs\<lparr>fs_expiryGrace := 30 * Minute\<rparr>)\<rparr>"

definition ex_grace_env :: "http_env handle_env" where
  "ex_grace_env = (se_handle ex_serve_env)\<lparr>he_src := ex_http_env\<lparr>ce_now := 2 * Hour + Minute\<rparr>,
     he_sign_now := 2 * Hour + Minute, he_set_now := 2 * Hour + Minute\<rparr>"

theorem grace_answers_stale_witness:
  "\<exists>r1 ms ls st ri nu. Handle ex_rlib ex_grace_env [7, 5] ex_grace = (Inr [1, 5], r1, ms, ls) \<and>
     signed_for ex_xocsp ex_signer [1, 5] 5 st ri (2 * Hour + Minute) nu \<and> nu < 2 * Hour + Minute \<and>
     cached (r_cache r1) (big_String 5) = None"
proof -
  let ?req = "\<lparr>HashAlgorithm = 3, IssuerNameHash = [7], IssuerKeyHash = [8], SerialNumber = 5\<rparr>"
  let ?s = "ex_fs\<lparr>fs_expiryGrace := 30 * Minute\<rparr>"
  have r: "cache_inv (r_cache ex_grace)" "cached (r_cache ex_grace) k = None" "r_sgn_ops ex_grace = signer_iface ex_xocsp"
    "r_signer ex_grace = ex_signer" "r_src_ops ex_grace = any_source" "r_source ex_grace = AnyFile ?s" for k
    by (simp_all add: ex_grace_def ex_program_server_def New_def NewResponder_def cache_inv_def)
  have e: "he_sign_now ex_grace_env = 2 * Hour + Minute" "he_set_now ex_grace_env = 2 * Hour + Minute"
    "he_src ex_grace_env = ex_http_env\<lparr>ce_now := 2 * Hour + Minute\<rparr>" by (simp_all add: ex_grace_env_def)
  have a: "admitted ex_rlib ex_grace_env [7, 5] ex_grace ?req"
    using ex_admitted by (simp add: ex_grace_def ex_grace_env_def admitted_def)
  have "looked_up ex_grace ex_grace_env 5 = (StatusRevoked, Some \<lparr>RevokedAt = 50, Reason = 1\<rparr>, 2 * Hour)"
    by (simp add: r e on_state_def FileSource_GetStatus_def ex_http_env_def ex_fs_def ex_defs ex_signer_def window_simps
        snapshot_answer_def crl_index_def lookup_outcome_def)
  moreover have "Signer_CreateResponse ex_xocsp ex_signer 5 StatusRevoked (Some \<lparr>RevokedAt = 50, Reason = 1\<rparr>)
      (2 * Hour + Minute) (2 * Hour) = Inr ([1, 5], 2 * Hour)" by code_simp
  ultimately obtain r1 ms ls where h: "Handle ex_rlib ex_grace_env [7, 5] ex_grace = (Inr [1, 5], r1, ms, ls)"
    using Handle_signs [OF r(1) a, of "[1, 5]" "2 * Hour"] r e by auto
  have s: "fs_loaded ?s" "crlUsable (2 * Hour + Minute) ?s" "RawSubject (sg_issuerCert ex_signer) = RawSubject (fs_issuerCert ?s)"
    "fs_nextUpdate ?s = 2 * Hour" "sg_validity ex_signer = Hour"
    by (simp_all add: ex_fs_def ex_defs ex_signer_def crlUsable_def crlValiditySnapshot_def window_simps)
  from grace_answers_stale [OF r(1,5,3,6) s(1) _ _ _ _ _ _ _ a _ h] s r e show ?thesis
    by (fastforce simp: h ex_http_env_def)
qed

end
